theory Spec2Isabelle
  imports Complex_Main
begin

section \<open>The masking editor of \<open>src/components/ImageStudio.tsx\<close>\<close>

text \<open>
  The editor (\<open>MaskingEditor\<close>) keeps two canvases of the same size, a background
  canvas showing the source image and a drawing canvas (the overlay) on which the user
  paints the mask. Its handlers are \<open>resizeCanvases\<close>, \<open>drawLine\<close>,
  \<open>startDrawing\<close>, \<open>draw\<close>, \<open>stopDrawing\<close>, \<open>clearMask\<close>,
  \<open>invertMask\<close> and \<open>handleSave\<close>. They are embedded below over a model of the
  part of the HTML canvas that they call.
\<close>

subsection \<open>Pixels\<close>

text \<open>
  A pixel is four 8-bit channels, red, green, blue and alpha. \<open>ImageData.data\<close> holds
  them as they are (not premultiplied); the bitmap of a canvas holds them premultiplied
  by alpha, which is how the compositing operators are specified. A product of two
  channel values, and of a channel value and \<open>globalAlpha\<close>, is rounded to the nearest
  integer.
\<close>

type_synonym pixel = "nat \<times> nat \<times> nat \<times> nat"

fun alpha :: "pixel \<Rightarrow> nat" where
  "alpha (r, g, b, a) = a"

definition transparent :: pixel where
  "transparent = (0, 0, 0, 0)"

definition white :: pixel where
  "white = (255, 255, 255, 255)"

definition black :: pixel where
  "black = (0, 0, 0, 255)"

text \<open>\<open>x * a / 255\<close> on channel values, rounded to the nearest integer.\<close>

definition mul255 :: "nat \<Rightarrow> nat \<Rightarrow> nat" where
  "mul255 x a = (x * a + 127) div 255"

text \<open>A channel value times \<open>globalAlpha\<close> (a number between 0 and 1), rounded.\<close>

definition scaleAlpha :: "rat \<Rightarrow> nat \<Rightarrow> nat" where
  "scaleAlpha g c = nat \<lfloor>of_nat c * g + 1 / 2\<rfloor>"

fun withGlobalAlpha :: "rat \<Rightarrow> pixel \<Rightarrow> pixel" where
  "withGlobalAlpha ga (r, g, b, a) =
     (scaleAlpha ga r, scaleAlpha ga g, scaleAlpha ga b, scaleAlpha ga a)"

fun premultiply :: "pixel \<Rightarrow> pixel" where
  "premultiply (r, g, b, a) = (mul255 r a, mul255 g a, mul255 b a, a)"

fun unpremultiply :: "pixel \<Rightarrow> pixel" where
  "unpremultiply (r, g, b, a) =
     (if a = 0 then (0, 0, 0, 0)
      else (min 255 ((r * 255 + a div 2) div a),
            min 255 ((g * 255 + a div 2) div a),
            min 255 ((b * 255 + a div 2) div a), a))"

text \<open>A premultiplied pixel is valid when no channel exceeds alpha and alpha is a byte.\<close>

fun validPixel :: "pixel \<Rightarrow> bool" where
  "validPixel (r, g, b, a) = (r \<le> a \<and> g \<le> a \<and> b \<le> a \<and> a \<le> 255)"

text \<open>The CSS colours that the editor assigns to \<open>fillStyle\<close> and \<open>strokeStyle\<close>.\<close>

datatype colour = Red | Black

fun rgb :: "colour \<Rightarrow> nat \<times> nat \<times> nat" where
  "rgb Red = (255, 0, 0)"
| "rgb Black = (0, 0, 0)"

text \<open>
  The source pixel of a fill or a stroke: the colour at the coverage \<open>k\<close> of the shape
  on that pixel (255 inside, 0 outside, between on an antialiased edge), times
  \<open>globalAlpha\<close>, premultiplied.
\<close>

definition shade :: "rat \<Rightarrow> colour \<Rightarrow> nat \<Rightarrow> pixel" where
  "shade ga col k =
     (case rgb col of (r, g, b) \<Rightarrow>
        let a = scaleAlpha ga (min 255 k) in (mul255 r a, mul255 g a, mul255 b a, a))"

text \<open>
  The three values of \<open>globalCompositeOperation\<close> that the editor uses, as the
  Porter-Duff operators on premultiplied pixels: source-over is \<open>s + d * (1 - \<alpha>s)\<close>,
  destination-out is \<open>d * (1 - \<alpha>s)\<close>, source-in is \<open>s * \<alpha>d\<close>.
\<close>

datatype compositeOp = SourceOver | DestinationOut | SourceIn

fun composite :: "compositeOp \<Rightarrow> pixel \<Rightarrow> pixel \<Rightarrow> pixel" where
  "composite SourceOver (sr, sg, sb, sa) (dr, dg, db, da) =
     (sr + mul255 dr (255 - sa), sg + mul255 dg (255 - sa),
      sb + mul255 db (255 - sa), sa + mul255 da (255 - sa))"
| "composite DestinationOut (sr, sg, sb, sa) (dr, dg, db, da) =
     (mul255 dr (255 - sa), mul255 dg (255 - sa),
      mul255 db (255 - sa), mul255 da (255 - sa))"
| "composite SourceIn (sr, sg, sb, sa) (dr, dg, db, da) =
     (mul255 sr da, mul255 sg da, mul255 sb da, mul255 sa da)"

subsection \<open>Canvases\<close>

datatype lineStyle = Butt | Miter | Round

text \<open>
  A canvas element with the state of its 2D context. \<open>bitmap\<close> is row-major and
  premultiplied. \<open>has2d\<close> says whether \<open>getContext('2d')\<close> returns a context;
  \<open>rectLeft\<close> and \<open>rectTop\<close> are what \<open>getBoundingClientRect\<close> returns.
\<close>

record canvas =
  width :: nat
  height :: nat
  bitmap :: "pixel list"
  has2d :: bool
  rectLeft :: rat
  rectTop :: rat
  globalAlpha :: rat
  globalCompositeOperation :: compositeOp
  fillStyle :: colour
  strokeStyle :: colour
  lineWidth :: rat
  lineCap :: lineStyle
  lineJoin :: lineStyle

text \<open>A decoded image, and the raster that \<open>toDataURL\<close> encodes: not premultiplied.\<close>

record raster =
  rwidth :: nat
  rheight :: nat
  rpixels :: "pixel list"

datatype domException = IndexSizeError | InvalidStateError

text \<open>A JavaScript number that is not negative: finite, \<open>Infinity\<close> or \<open>NaN\<close>.\<close>

datatype jsnum = Num rat | Infinity | NaN

text \<open>
  What the editor takes from the browser and the repository does not compute:
  whether a canvas made by \<open>document.createElement\<close> gives a 2D context, the
  coverage of every pixel by a stroked path (the arguments are the canvas width and
  height, the line width, cap and join, and the points of the path), the scaling of an
  image to a destination rectangle (the premultiplied source pixel for every pixel of a
  canvas of the given width and height), and the rounding of a real number to a
  double.
\<close>

record platform =
  fresh2d :: bool
  strokeCoverage :: "nat \<Rightarrow> nat \<Rightarrow> rat \<Rightarrow> lineStyle \<Rightarrow> lineStyle \<Rightarrow> (rat \<times> rat) list \<Rightarrow> nat list"
  resample :: "raster \<Rightarrow> jsnum \<Rightarrow> jsnum \<Rightarrow> nat \<Rightarrow> nat \<Rightarrow> pixel list"
  fround :: "rat \<Rightarrow> rat"

text \<open>The context state after a reset: the defaults of the 2D context.\<close>

definition resetContext :: "canvas \<Rightarrow> canvas" where
  "resetContext c = c\<lparr>globalAlpha := 1, globalCompositeOperation := SourceOver,
     fillStyle := Black, strokeStyle := Black, lineWidth := 1, lineCap := Butt,
     lineJoin := Miter\<rparr>"

text \<open>\<open>document.createElement('canvas')\<close>: 300 by 150, transparent.\<close>

definition createCanvas :: "platform \<Rightarrow> canvas" where
  "createCanvas pf = resetContext
     \<lparr>width = 300, height = 150, bitmap = replicate (300 * 150) transparent,
      has2d = fresh2d pf, rectLeft = 0, rectTop = 0, globalAlpha = 1,
      globalCompositeOperation = SourceOver, fillStyle = Black, strokeStyle = Black,
      lineWidth = 1, lineCap = Butt, lineJoin = Miter\<rparr>"

text \<open>
  Assigning \<open>canvas.width\<close> or \<open>canvas.height\<close> replaces the bitmap by a transparent
  one of the new size and resets the context, also when the value does not change.
\<close>

definition setWidth :: "nat \<Rightarrow> canvas \<Rightarrow> canvas" where
  "setWidth w c = resetContext (c\<lparr>width := w, bitmap := replicate (w * height c) transparent\<rparr>)"

definition setHeight :: "nat \<Rightarrow> canvas \<Rightarrow> canvas" where
  "setHeight h c = resetContext (c\<lparr>height := h, bitmap := replicate (width c * h) transparent\<rparr>)"

text \<open>\<open>getContext('2d')\<close>: the context is the canvas record itself, when there is one.\<close>

definition getContext :: "canvas \<Rightarrow> canvas option" where
  "getContext c = (if has2d c then Some c else None)"

text \<open>
  \<open>fillRect(0, 0, canvas.width, canvas.height)\<close> and
  \<open>clearRect(0, 0, canvas.width, canvas.height)\<close>: every call of the editor passes the
  whole bitmap as the rectangle. \<open>clearRect\<close> ignores \<open>globalAlpha\<close> and the
  compositing operator.
\<close>

definition fillRect :: "canvas \<Rightarrow> canvas" where
  "fillRect c = c\<lparr>bitmap :=
     map (composite (globalCompositeOperation c) (shade (globalAlpha c) (fillStyle c) 255))
       (bitmap c)\<rparr>"

definition clearRect :: "canvas \<Rightarrow> canvas" where
  "clearRect c = c\<lparr>bitmap := map (\<lambda>p. transparent) (bitmap c)\<rparr>"

text \<open>
  Compositing a list of premultiplied source pixels, one for each pixel of the bitmap,
  after \<open>globalAlpha\<close> has been applied to them.
\<close>

fun compositeAll :: "compositeOp \<Rightarrow> rat \<Rightarrow> pixel list \<Rightarrow> pixel list \<Rightarrow> pixel list" where
  "compositeAll op ga (s # ss) (d # ds) =
     composite op (withGlobalAlpha ga s) d # compositeAll op ga ss ds"
| "compositeAll op ga [] ds = ds"
| "compositeAll op ga ss [] = []"

text \<open>
  The source pixel that \<open>drawImage(src, 0, 0)\<close> puts on the pixel of index \<open>i\<close> of a
  bitmap of width \<open>w\<close>: the pixel of \<open>src\<close> at the same coordinates, transparent
  outside \<open>src\<close>.
\<close>

definition sourceAt :: "nat \<Rightarrow> canvas \<Rightarrow> nat \<Rightarrow> pixel" where
  "sourceAt w src i =
     (if w \<noteq> 0 \<and> i mod w < width src \<and> i div w < height src
         \<and> (i div w) * width src + i mod w < length (bitmap src)
      then bitmap src ! ((i div w) * width src + i mod w) else transparent)"

text \<open>
  \<open>ctx.drawImage(src, 0, 0)\<close> with a canvas as the image: an \<open>InvalidStateError\<close>
  when the source canvas has no pixels.
\<close>

definition drawImage :: "canvas \<Rightarrow> canvas \<Rightarrow> domException + canvas" where
  "drawImage c src =
     (if width src = 0 \<or> height src = 0 then Inl InvalidStateError
      else Inr (c\<lparr>bitmap :=
        compositeAll (globalCompositeOperation c) (globalAlpha c)
          (map (sourceAt (width c) src) [0..<length (bitmap c)]) (bitmap c)\<rparr>))"

text \<open>
  \<open>getImageData(0, 0, canvas.width, canvas.height)\<close>: an \<open>IndexSizeError\<close> when
  the width or the height is zero, a copy of the pixels otherwise.
  \<open>putImageData(imageData, 0, 0)\<close> replaces the pixels.
\<close>

definition getImageData :: "canvas \<Rightarrow> domException + pixel list" where
  "getImageData c =
     (if width c = 0 \<or> height c = 0 then Inl IndexSizeError
      else Inr (map unpremultiply (bitmap c)))"

fun putAll :: "pixel list \<Rightarrow> pixel list \<Rightarrow> pixel list" where
  "putAll (s # ss) (d # ds) = premultiply s # putAll ss ds"
| "putAll [] ds = ds"
| "putAll ss [] = []"

definition putImageData :: "canvas \<Rightarrow> pixel list \<Rightarrow> canvas" where
  "putImageData c data = c\<lparr>bitmap := putAll data (bitmap c)\<rparr>"

text \<open>\<open>toDataURL('image/png')\<close>: the pixels of the canvas, as a PNG holds them.\<close>

definition toDataURL :: "canvas \<Rightarrow> raster" where
  "toDataURL c = \<lparr>rwidth = width c, rheight = height c,
     rpixels = map unpremultiply (bitmap c)\<rparr>"

subsection \<open>Numbers\<close>

text \<open>
  What the properties of the computed size take from the rounding to a double: zero
  is exact, rounding is monotone, and a number between \<open>2^-64\<close> and \<open>2^64\<close> is
  rounded with a relative error of at most \<open>2^-53\<close>, as rounding to the nearest
  double does.
\<close>

definition roundsLikeDouble :: "(rat \<Rightarrow> rat) \<Rightarrow> bool" where
  "roundsLikeDouble rnd \<longleftrightarrow>
     rnd 0 = 0
     \<and> (\<forall>x y. x \<le> y \<longrightarrow> rnd x \<le> rnd y)
     \<and> (\<forall>x. 1 / 2 ^ 64 \<le> x \<and> x \<le> 2 ^ 64 \<longrightarrow> \<bar>rnd x - x\<bar> \<le> x * (1 / 2 ^ 53))"

text \<open>
  Division, multiplication and \<open>>\<close> of JavaScript on numbers that are not
  negative. A finite result is rounded to a double by the platform's \<open>fround\<close>.
\<close>

fun jsDiv :: "platform \<Rightarrow> jsnum \<Rightarrow> jsnum \<Rightarrow> jsnum" where
  "jsDiv pf (Num a) (Num b) =
     (if b = 0 then (if a = 0 then NaN else Infinity) else Num (fround pf (a / b)))"
| "jsDiv pf (Num a) Infinity = Num 0"
| "jsDiv pf Infinity (Num b) = Infinity"
| "jsDiv pf Infinity Infinity = NaN"
| "jsDiv pf NaN y = NaN"
| "jsDiv pf x NaN = NaN"

fun jsMul :: "platform \<Rightarrow> jsnum \<Rightarrow> jsnum \<Rightarrow> jsnum" where
  "jsMul pf (Num a) (Num b) = Num (fround pf (a * b))"
| "jsMul pf (Num a) Infinity = (if a = 0 then NaN else Infinity)"
| "jsMul pf Infinity (Num b) = (if b = 0 then NaN else Infinity)"
| "jsMul pf Infinity Infinity = Infinity"
| "jsMul pf NaN y = NaN"
| "jsMul pf x NaN = NaN"

fun jsGreater :: "jsnum \<Rightarrow> jsnum \<Rightarrow> bool" where
  "jsGreater (Num a) (Num b) = (a > b)"
| "jsGreater Infinity (Num b) = True"
| "jsGreater (Num a) Infinity = False"
| "jsGreater Infinity Infinity = False"
| "jsGreater NaN y = False"
| "jsGreater x NaN = False"

text \<open>
  The conversion of a number to \<open>unsigned long\<close>: truncated, modulo \<open>2^32\<close>, and 0
  for \<open>NaN\<close> and \<open>Infinity\<close>. The \<open>width\<close> and \<open>height\<close> attributes of a
  canvas take a value up to \<open>2^31 - 1\<close> and their default beyond.
\<close>

fun toUnsignedLong :: "jsnum \<Rightarrow> nat" where
  "toUnsignedLong (Num x) = nat \<lfloor>x\<rfloor> mod 4294967296"
| "toUnsignedLong Infinity = 0"
| "toUnsignedLong NaN = 0"

definition reflectDimension :: "nat \<Rightarrow> jsnum \<Rightarrow> nat" where
  "reflectDimension dflt v =
     (let n = toUnsignedLong v in if n \<le> 2147483647 then n else dflt)"

definition assignWidth :: "jsnum \<Rightarrow> canvas \<Rightarrow> canvas" where
  "assignWidth v c = setWidth (reflectDimension 300 v) c"

definition assignHeight :: "jsnum \<Rightarrow> canvas \<Rightarrow> canvas" where
  "assignHeight v c = setHeight (reflectDimension 150 v) c"

text \<open>
  \<open>ctx.drawImage(img, 0, 0, dw, dh)\<close> with a loaded image: nothing is drawn when the
  image has no pixels or an argument is not finite. When the destination rectangle has
  the size of the image, each pixel of the image goes to the pixel at the same
  coordinates; otherwise the platform scales the image.
\<close>

definition imageAt :: "nat \<Rightarrow> raster \<Rightarrow> nat \<Rightarrow> pixel" where
  "imageAt w img i =
     (if w \<noteq> 0 \<and> i mod w < rwidth img \<and> i div w < rheight img
         \<and> (i div w) * rwidth img + i mod w < length (rpixels img)
      then premultiply (rpixels img ! ((i div w) * rwidth img + i mod w)) else transparent)"

definition drawImageScaled :: "platform \<Rightarrow> canvas \<Rightarrow> raster \<Rightarrow> jsnum \<Rightarrow> jsnum \<Rightarrow> canvas" where
  "drawImageScaled pf c img dw dh =
     (if rwidth img = 0 \<or> rheight img = 0 then c
      else
        (case (dw, dh) of
           (Num w, Num h) \<Rightarrow>
             c\<lparr>bitmap :=
               compositeAll (globalCompositeOperation c) (globalAlpha c)
                 (if w = of_nat (rwidth img) \<and> h = of_nat (rheight img)
                  then map (imageAt (width c) img) [0..<length (bitmap c)]
                  else resample pf img dw dh (width c) (height c))
                 (bitmap c)\<rparr>
         | _ \<Rightarrow> c))"

text \<open>
  Stroking a path: the coverage of the platform's rasteriser for every pixel, in the
  stroke colour, composited as the context says. A pixel that the rasteriser does not
  report has coverage 0.
\<close>

fun strokeAll :: "compositeOp \<Rightarrow> rat \<Rightarrow> colour \<Rightarrow> nat list \<Rightarrow> pixel list \<Rightarrow> pixel list" where
  "strokeAll op ga col (k # ks) (d # ds) =
     composite op (shade ga col k) d # strokeAll op ga col ks ds"
| "strokeAll op ga col [] (d # ds) =
     composite op (shade ga col 0) d # strokeAll op ga col [] ds"
| "strokeAll op ga col ks [] = []"

definition stroke :: "platform \<Rightarrow> canvas \<Rightarrow> (rat \<times> rat) list \<Rightarrow> canvas" where
  "stroke pf c path = c\<lparr>bitmap :=
     strokeAll (globalCompositeOperation c) (globalAlpha c) (strokeStyle c)
       (strokeCoverage pf (width c) (height c) (lineWidth c) (lineCap c) (lineJoin c) path)
       (bitmap c)\<rparr>"

text \<open>The bitmap has one pixel for each position, and every pixel is valid.\<close>

definition wellFormed :: "canvas \<Rightarrow> bool" where
  "wellFormed c \<longleftrightarrow>
     length (bitmap c) = width c * height c \<and> list_all validPixel (bitmap c)"

subsection \<open>The editor\<close>

text \<open>
  The refs and state of the component. A ref is \<open>None\<close> while its element is not
  mounted. \<open>imageUrl\<close> and \<open>initialMask\<close> are the props, as the images they decode
  to: \<open>imageUrl = None\<close> is an image that never loads, \<open>initialMask = None\<close> is a
  \<open>null\<close> mask.
\<close>

record editor =
  containerRef :: "(nat \<times> nat) option"
  imageCanvasRef :: "canvas option"
  drawingCanvasRef :: "canvas option"
  isDrawing :: bool
  lastPos :: "(rat \<times> rat) option"
  brushSize :: rat
  isErasing :: bool
  imageUrl :: "raster option"
  initialMask :: "raster option"

record mouseEvent =
  clientX :: rat
  clientY :: rat

text \<open>
  The size that \<open>resizeCanvases\<close> computes from the container and the image:
  \<open>(canvasWidth, canvasHeight)\<close>.
\<close>

definition canvasSize :: "platform \<Rightarrow> nat \<Rightarrow> nat \<Rightarrow> nat \<Rightarrow> nat \<Rightarrow> jsnum \<times> jsnum" where
  "canvasSize pf containerWidth containerHeight imgWidth imgHeight =
     (let containerRatio = jsDiv pf (Num (of_nat containerWidth)) (Num (of_nat containerHeight));
          imgRatio = jsDiv pf (Num (of_nat imgWidth)) (Num (of_nat imgHeight))
      in if jsGreater imgRatio containerRatio
         then (Num (of_nat containerWidth), jsDiv pf (Num (of_nat containerWidth)) imgRatio)
         else (jsMul pf (Num (of_nat containerHeight)) imgRatio, Num (of_nat containerHeight)))"

text \<open>
  What \<open>maskImg.onload\<close> does to the drawing context: the mask is drawn on a
  temporary canvas, which is filled with red under \<open>source-in\<close> and then drawn on
  the overlay at \<open>globalAlpha = 0.5\<close>. The result is the drawing canvas and the
  exception of the last \<open>drawImage\<close>, if it raises one.
\<close>

definition seedMask :: "platform \<Rightarrow> canvas \<Rightarrow> raster \<Rightarrow> jsnum \<Rightarrow> jsnum \<Rightarrow> canvas \<times> domException option" where
  "seedMask pf drawingCtx maskImg canvasWidth canvasHeight =
     (let drawingCtx = drawingCtx\<lparr>globalCompositeOperation := SourceOver,
            globalAlpha := 1 / 2, fillStyle := Red\<rparr>;
          tempCanvas = assignHeight canvasHeight (assignWidth canvasWidth (createCanvas pf))
      in (case getContext tempCanvas of
            None \<Rightarrow> (drawingCtx, None)
          | Some tempCtx \<Rightarrow>
              let tempCtx = drawImageScaled pf tempCtx maskImg canvasWidth canvasHeight;
                  tempCtx = tempCtx\<lparr>globalCompositeOperation := SourceIn, fillStyle := Red\<rparr>;
                  tempCtx = fillRect tempCtx
              in (case drawImage drawingCtx tempCtx of
                    Inl e \<Rightarrow> (drawingCtx, Some e)
                  | Inr drawingCtx \<Rightarrow> (drawingCtx, None))))"

text \<open>
  \<open>resizeCanvases\<close>, with the two \<open>onload\<close> callbacks run in their order. The
  result is the editor and the exception that a callback raised, if any.
\<close>

definition resizeCanvases :: "platform \<Rightarrow> editor \<Rightarrow> editor \<times> domException option" where
  "resizeCanvases pf st =
     (case containerRef st of
        None \<Rightarrow> (st, None)
      | Some container \<Rightarrow>
     (case imageCanvasRef st of
        None \<Rightarrow> (st, None)
      | Some imageCanvas \<Rightarrow>
     (case drawingCanvasRef st of
        None \<Rightarrow> (st, None)
      | Some drawingCanvas \<Rightarrow>
     (case imageUrl st of
        None \<Rightarrow> (st, None)
      | Some img \<Rightarrow>
          (case canvasSize pf (fst container) (snd container) (rwidth img) (rheight img) of
             (canvasWidth, canvasHeight) \<Rightarrow>
               let imageCanvas = assignHeight canvasHeight (assignWidth canvasWidth imageCanvas);
                   drawingCanvas = assignHeight canvasHeight (assignWidth canvasWidth drawingCanvas);
                   imageCanvas =
                     (case getContext imageCanvas of
                        None \<Rightarrow> imageCanvas
                      | Some imageCtx \<Rightarrow> drawImageScaled pf imageCtx img canvasWidth canvasHeight);
                   st = st\<lparr>imageCanvasRef := Some imageCanvas,
                          drawingCanvasRef := Some drawingCanvas\<rparr>
               in (case getContext drawingCanvas of
                     None \<Rightarrow> (st, None)
                   | Some drawingCtx \<Rightarrow>
                       (case initialMask st of
                          None \<Rightarrow> (st, None)
                        | Some maskImg \<Rightarrow>
                            (case seedMask pf drawingCtx maskImg canvasWidth canvasHeight of
                               (drawingCtx, e) \<Rightarrow>
                                 (st\<lparr>drawingCanvasRef := Some drawingCtx\<rparr>, e)))))))))"

definition getMousePos :: "editor \<Rightarrow> mouseEvent \<Rightarrow> rat \<times> rat" where
  "getMousePos st e =
     (case drawingCanvasRef st of
        None \<Rightarrow> (0, 0)
      | Some c \<Rightarrow> (clientX e - rectLeft c, clientY e - rectTop c))"

definition drawLine :: "platform \<Rightarrow> editor \<Rightarrow> rat \<Rightarrow> rat \<Rightarrow> rat \<Rightarrow> rat \<Rightarrow> editor" where
  "drawLine pf st x1 y1 x2 y2 =
     (case drawingCanvasRef st of
        None \<Rightarrow> st
      | Some c \<Rightarrow>
          (case getContext c of
             None \<Rightarrow> st
           | Some ctx \<Rightarrow>
               let ctx = ctx\<lparr>strokeStyle := Red, lineWidth := brushSize st, lineCap := Round,
                     lineJoin := Round, globalAlpha := 1 / 2,
                     globalCompositeOperation :=
                       (if isErasing st then DestinationOut else SourceOver)\<rparr>
               in st\<lparr>drawingCanvasRef := Some (stroke pf ctx [(x1, y1), (x2, y2)])\<rparr>))"

definition startDrawing :: "platform \<Rightarrow> editor \<Rightarrow> mouseEvent \<Rightarrow> editor" where
  "startDrawing pf st e =
     (let st = st\<lparr>isDrawing := True\<rparr>;
          pos = getMousePos st e;
          st = st\<lparr>lastPos := Some pos\<rparr>
      in drawLine pf st (fst pos) (snd pos) (fst pos) (snd pos))"

definition draw :: "platform \<Rightarrow> editor \<Rightarrow> mouseEvent \<Rightarrow> editor" where
  "draw pf st e =
     (if \<not> isDrawing st then st
      else
        let pos = getMousePos st e;
            st = (case lastPos st of
                    None \<Rightarrow> st
                  | Some l \<Rightarrow> drawLine pf st (fst l) (snd l) (fst pos) (snd pos))
        in st\<lparr>lastPos := Some pos\<rparr>)"

definition stopDrawing :: "editor \<Rightarrow> editor" where
  "stopDrawing st = st\<lparr>isDrawing := False, lastPos := None\<rparr>"

definition clearMask :: "editor \<Rightarrow> editor" where
  "clearMask st =
     (case drawingCanvasRef st of
        None \<Rightarrow> st
      | Some c \<Rightarrow>
          (case getContext c of
             None \<Rightarrow> st
           | Some ctx \<Rightarrow> st\<lparr>drawingCanvasRef := Some (clearRect ctx)\<rparr>))"

text \<open>
  \<open>invertMask\<close>: copy the overlay to a temporary canvas, clear the overlay, fill it
  with red at \<open>globalAlpha = 0.5\<close>, then draw the copy with \<open>destination-out\<close>.
  \<open>globalAlpha\<close> is still 0.5 at that last \<open>drawImage\<close>.
\<close>

definition invertMask :: "platform \<Rightarrow> editor \<Rightarrow> domException + editor" where
  "invertMask pf st =
     (case drawingCanvasRef st of
        None \<Rightarrow> Inr st
      | Some c \<Rightarrow>
          (case getContext c of
             None \<Rightarrow> Inr st
           | Some ctx \<Rightarrow>
               let tempCanvas = setHeight (height c) (setWidth (width c) (createCanvas pf)) in
               (case getContext tempCanvas of
                  None \<Rightarrow> Inr st
                | Some tempCtx \<Rightarrow>
                    (case drawImage tempCtx c of
                       Inl e \<Rightarrow> Inl e
                     | Inr tempCtx \<Rightarrow>
                         let ctx = clearRect ctx;
                             ctx = ctx\<lparr>globalCompositeOperation := SourceOver,
                                     globalAlpha := 1 / 2, fillStyle := Red\<rparr>;
                             ctx = fillRect ctx;
                             ctx = ctx\<lparr>globalCompositeOperation := DestinationOut\<rparr>
                         in (case drawImage ctx tempCtx of
                               Inl e \<Rightarrow> Inl e
                             | Inr ctx \<Rightarrow> Inr (st\<lparr>drawingCanvasRef := Some ctx\<rparr>))))))"

text \<open>
  The first loop of \<open>handleSave\<close>, over the pixels of \<open>data\<close>: a pixel with
  \<open>data[i + 3] > 0\<close> becomes 255 in its four channels.
\<close>

fun silhouette :: "pixel list \<Rightarrow> pixel list" where
  "silhouette [] = []"
| "silhouette ((r, g, b, a) # ps) =
     (if a > 0 then (255, 255, 255, 255) else (r, g, b, a)) # silhouette ps"

text \<open>
  The second loop, over the pixels of \<open>finalData\<close>: where \<open>sourceData[i + 3] > 0\<close>
  the three colour channels become 255 and alpha stays. Beyond the end of
  \<open>sourceData\<close> the read is \<open>undefined\<close> and the test is false.
\<close>

fun punch :: "pixel list \<Rightarrow> pixel list \<Rightarrow> pixel list" where
  "punch [] ss = []"
| "punch (f # fs) [] = f # punch fs []"
| "punch ((r, g, b, a) # fs) (s # ss) =
     (if alpha s > 0 then (255, 255, 255, a) else (r, g, b, a)) # punch fs ss"

text \<open>
  \<open>handleSave\<close> returns the editor (which it leaves as it is) and what it did: an
  exception, nothing (\<open>None\<close>, an early \<open>return\<close>), or the mask given to \<open>onSave\<close>.
  The mask is the raster of the final canvas: \<open>base64\<close> is its PNG as a data URL and
  \<open>file\<close> is what \<open>dataURLtoFile\<close> decodes from that same URL.
\<close>

definition handleSave :: "platform \<Rightarrow> editor \<Rightarrow> editor \<times> (domException + raster option)" where
  "handleSave pf st =
     (case drawingCanvasRef st of
        None \<Rightarrow> (st, Inr None)
      | Some drawingCanvas \<Rightarrow>
          let tempCanvas = setHeight (height drawingCanvas)
                (setWidth (width drawingCanvas) (createCanvas pf)) in
          (case getContext tempCanvas of
             None \<Rightarrow> (st, Inr None)
           | Some ctx \<Rightarrow>
               let ctx = fillRect (ctx\<lparr>fillStyle := Black\<rparr>) in
               (case getContext drawingCanvas of
                  None \<Rightarrow> (st, Inr None)
                | Some drawingCtx \<Rightarrow>
                    (case getImageData drawingCtx of
                       Inl e \<Rightarrow> (st, Inl e)
                     | Inr data \<Rightarrow>
                         let silhouetteCanvas = setHeight (height drawingCanvas)
                               (setWidth (width drawingCanvas) (createCanvas pf)) in
                         (case getContext silhouetteCanvas of
                            None \<Rightarrow> (st, Inr None)
                          | Some silhouetteCtx \<Rightarrow>
                              let data = silhouette data;
                                  silhouetteCtx = putImageData silhouetteCtx data;
                                  ctx = ctx\<lparr>globalCompositeOperation := SourceOver\<rparr>
                              in (case drawImage ctx silhouetteCtx of
                                    Inl e \<Rightarrow> (st, Inl e)
                                  | Inr ctx \<Rightarrow>
                                      let finalCanvas = setHeight (height drawingCanvas)
                                            (setWidth (width drawingCanvas) (createCanvas pf)) in
                                      (case getContext finalCanvas of
                                         None \<Rightarrow> (st, Inr None)
                                       | Some finalCtx \<Rightarrow>
                                           let finalCtx = fillRect (finalCtx\<lparr>fillStyle := Black\<rparr>);
                                               finalCtx = finalCtx\<lparr>globalCompositeOperation := SourceOver\<rparr>
                                           in (case getImageData finalCtx of
                                                 Inl e \<Rightarrow> (st, Inl e)
                                               | Inr finalData \<Rightarrow>
                                                   (case getImageData silhouetteCtx of
                                                      Inl e \<Rightarrow> (st, Inl e)
                                                    | Inr sourceData \<Rightarrow>
                                                        let finalData = punch finalData sourceData;
                                                            finalCtx = putImageData finalCtx finalData
                                                        in (st, Inr (Some (toDataURL finalCtx))))))))))))"

subsection \<open>The effect of inverting on a pixel\<close>

text \<open>
  What \<open>invertMask\<close> does to the overlay, pixel by pixel: the red fill at alpha 128
  loses the share \<open>\<alpha> / 2\<close> of it, where \<open>\<alpha>\<close> is the alpha that the pixel had.
\<close>

definition invertedPixel :: "pixel \<Rightarrow> pixel" where
  "invertedPixel s = composite DestinationOut (withGlobalAlpha (1 / 2) s) (128, 0, 0, 128)"

subsection \<open>Sample data\<close>

text \<open>
  A platform whose rasteriser covers the pixels that hold a point of the path, whose
  scaler gives a transparent image, and whose doubles are exact; an editor with an
  overlay of two pixels, the first painted once, the second untouched.
\<close>

definition dotCoverage :: "nat \<Rightarrow> nat \<Rightarrow> rat \<Rightarrow> lineStyle \<Rightarrow> lineStyle \<Rightarrow> (rat \<times> rat) list \<Rightarrow> nat list" where
  "dotCoverage w h lw cap join path =
     map (\<lambda>i. if list_ex (\<lambda>(x, y). \<lfloor>x\<rfloor> = int (i mod w) \<and> \<lfloor>y\<rfloor> = int (i div w)) path
              then 255 else 0) [0..<w * h]"

definition samplePlatform :: platform where
  "samplePlatform = \<lparr>fresh2d = True, strokeCoverage = dotCoverage,
     resample = (\<lambda>img dw dh w h. replicate (w * h) transparent), fround = (\<lambda>x. x)\<rparr>"

definition blankCanvas :: "nat \<Rightarrow> nat \<Rightarrow> canvas" where
  "blankCanvas w h = (setHeight h (setWidth w (createCanvas samplePlatform)))"

definition sampleCanvas :: canvas where
  "sampleCanvas = (blankCanvas 2 1)\<lparr>bitmap := [(128, 0, 0, 128), (0, 0, 0, 0)]\<rparr>"

definition editorOn :: "canvas option \<Rightarrow> editor" where
  "editorOn c = \<lparr>containerRef = Some (2, 1), imageCanvasRef = Some (blankCanvas 2 1),
     drawingCanvasRef = c, isDrawing = False, lastPos = None, brushSize = 40,
     isErasing = False, imageUrl = None, initialMask = None\<rparr>"

definition sampleEditor :: editor where
  "sampleEditor = editorOn (Some sampleCanvas)"

text \<open>
  The same editor with the eraser selected; an overlay of one pixel, blank and after a
  stroke that covers it; and the editor opened on an image of two pixels with the mask
  that \<open>handleSave\<close> gives for \<open>sampleEditor\<close>.
\<close>

definition erasingEditor :: editor where
  "erasingEditor = sampleEditor\<lparr>isErasing := True\<rparr>"

definition blankEditor :: editor where
  "blankEditor = editorOn (Some (blankCanvas 1 1))"

definition paintedEditor :: editor where
  "paintedEditor = drawLine samplePlatform blankEditor 0 0 0 0"

definition sampleMask :: raster where
  "sampleMask = \<lparr>rwidth = 2, rheight = 1,
     rpixels = [(255, 255, 255, 255), (0, 0, 0, 255)]\<rparr>"

definition sampleImage :: raster where
  "sampleImage = \<lparr>rwidth = 2, rheight = 1,
     rpixels = [(10, 20, 30, 255), (40, 50, 60, 255)]\<rparr>"

definition reopenedEditor :: editor where
  "reopenedEditor = (editorOn (Some (blankCanvas 2 1)))
     \<lparr>imageUrl := Some sampleImage, initialMask := Some sampleMask\<rparr>"

text \<open>
  An image of five pixels by one in a container of one pixel by one: \<open>resizeCanvases\<close>
  computes a height of \<open>1 / 5\<close>, which the canvas truncates to 0.
\<close>

definition wideImage :: raster where
  "wideImage = \<lparr>rwidth = 5, rheight = 1, rpixels = replicate 5 (10, 20, 30, 255)\<rparr>"

definition wideImageEditor :: editor where
  "wideImageEditor = (editorOn (Some (blankCanvas 2 1)))
     \<lparr>containerRef := Some (1, 1), imageUrl := Some wideImage\<rparr>"

definition narrowEditor :: editor where
  "narrowEditor = fst (resizeCanvases samplePlatform wideImageEditor)"

section \<open>Properties\<close>

subsection \<open>Arithmetic of channels\<close>

lemma scaleAlpha_one: "scaleAlpha 1 c = c"
proof -
  have "\<lfloor>(of_nat c :: rat) + 1 / 2\<rfloor> = int c"
    by (rule floor_unique) simp_all
  then show ?thesis by (simp add: scaleAlpha_def)
qed

lemma scaleAlpha_half: "scaleAlpha (1 / 2) c = (c + 1) div 2"
proof -
  have "(of_nat c :: rat) * (1 / 2) + 1 / 2 = of_nat (c + 1) / of_nat 2"
    by (simp add: field_simps)
  then have "\<lfloor>(of_nat c :: rat) * (1 / 2) + 1 / 2\<rfloor> = int ((c + 1) div 2)"
    by (simp only: floor_divide_of_nat_eq)
  then show ?thesis by (simp add: scaleAlpha_def)
qed

lemma alpha_unpremultiply: "alpha (unpremultiply p) = alpha p"
  by (cases p) simp

lemma alpha_premultiply: "alpha (premultiply p) = alpha p"
  by (cases p) simp

lemma premultiply_white: "premultiply white = white"
  by (simp add: white_def mul255_def)

lemma premultiply_black: "premultiply black = black"
  by (simp add: black_def mul255_def)

lemma unpremultiply_white: "unpremultiply white = white"
  by (simp add: white_def)

lemma unpremultiply_black: "unpremultiply black = black"
  by (simp add: black_def)

lemma shade_black_opaque: "shade 1 Black 255 = black"
  by (simp add: shade_def scaleAlpha_one mul255_def black_def)

lemma composite_over_transparent: "composite SourceOver s transparent = s"
  by (cases s) (simp add: transparent_def mul255_def)

subsection \<open>The loops and the canvas operations\<close>

lemma silhouette_map: "silhouette ps = map (\<lambda>p. if alpha p > 0 then white else p) ps"
  by (induction ps rule: silhouette.induct) (simp_all add: white_def)

lemma punch_replicate:
  "punch (replicate (length ss) black) ss = map (\<lambda>s. if alpha s > 0 then white else black) ss"
  by (induction ss) (simp_all add: black_def white_def)

lemma putAll_same_length: "length ss = length ds \<Longrightarrow> putAll ss ds = map premultiply ss"
  by (induction ss ds rule: putAll.induct) simp_all

lemma fresh_canvas_simps:
  "width (setHeight h (setWidth w (createCanvas pf))) = w"
  "height (setHeight h (setWidth w (createCanvas pf))) = h"
  "bitmap (setHeight h (setWidth w (createCanvas pf))) = replicate (w * h) transparent"
  "has2d (setHeight h (setWidth w (createCanvas pf))) = fresh2d pf"
  "globalAlpha (setHeight h (setWidth w (createCanvas pf))) = 1"
  "globalCompositeOperation (setHeight h (setWidth w (createCanvas pf))) = SourceOver"
  by (simp_all add: setHeight_def setWidth_def createCanvas_def resetContext_def)

lemma fill_black_fresh:
  "bitmap (fillRect ((setHeight h (setWidth w (createCanvas pf)))\<lparr>fillStyle := Black\<rparr>))
     = replicate (w * h) black"
  by (simp add: fillRect_def fresh_canvas_simps shade_black_opaque composite_over_transparent)

lemma putImageData_dims:
  "width (putImageData c d) = width c" "height (putImageData c d) = height c"
  by (simp_all add: putImageData_def)

lemma fillRect_dims:
  "width (fillRect c) = width c" "height (fillRect c) = height c"
  by (simp_all add: fillRect_def)

lemma getImageData_nonempty:
  "0 < width c \<Longrightarrow> 0 < height c \<Longrightarrow> getImageData c = Inr (map unpremultiply (bitmap c))"
  by (simp add: getImageData_def)

lemma drawImage_nonempty:
  "0 < width src \<Longrightarrow> 0 < height src \<Longrightarrow> \<exists>c'. drawImage c src = Inr c'"
  by (simp add: drawImage_def)

subsection \<open>What \<open>handleSave\<close> gives to \<open>onSave\<close>\<close>

text \<open>
  On an overlay that has a context and at least one pixel, with contexts for the
  temporary canvases, \<open>handleSave\<close> reaches \<open>onSave\<close> with a raster of the size of
  the overlay, white where the overlay's alpha is positive and black elsewhere.
\<close>

lemma handleSave_available:
  assumes "drawingCanvasRef st = Some c" and "has2d c" and "fresh2d pf"
    and "0 < width c" and "0 < height c" and "length (bitmap c) = width c * height c"
  shows "snd (handleSave pf st) =
    Inr (Some \<lparr>rwidth = width c, rheight = height c,
      rpixels = map (\<lambda>p. if alpha p > 0 then white else black) (bitmap c)\<rparr>)"
proof -
  let ?fresh = "setHeight (height c) (setWidth (width c) (createCanvas pf))"
  let ?data = "silhouette (map unpremultiply (bitmap c))"
  let ?sil = "putImageData ?fresh ?data"
  let ?bin = "map (\<lambda>p. if alpha p > 0 then white else black) (bitmap c)"
  let ?final = "(fillRect (?fresh\<lparr>fillStyle := Black\<rparr>))\<lparr>globalCompositeOperation := SourceOver\<rparr>"
  have ctx_c: "getContext c = Some c"
    using assms(2) by (simp add: getContext_def)
  have ctx_fresh: "getContext ?fresh = Some ?fresh"
    using assms(3) by (simp add: getContext_def fresh_canvas_simps)
  have data: "getImageData c = Inr (map unpremultiply (bitmap c))"
    using assms(4,5) by (rule getImageData_nonempty)
  have sil: "bitmap ?sil = map premultiply ?data"
    using assms(6)
    by (simp add: putImageData_def fresh_canvas_simps putAll_same_length silhouette_map)
  have src: "getImageData ?sil = Inr (map unpremultiply (map premultiply ?data))"
    using assms(4,5)
    by (simp add: getImageData_nonempty putImageData_dims fresh_canvas_simps sil)
  obtain dead where dead: "drawImage ?final ?sil = Inr dead"
    using drawImage_nonempty [of ?sil] assms(4,5)
    by (auto simp add: putImageData_dims fresh_canvas_simps)
  have fin: "getImageData ?final = Inr (replicate (width c * height c) black)"
    using assms(4,5)
    by (simp add: getImageData_def fillRect_dims fresh_canvas_simps fill_black_fresh
        unpremultiply_black)
  have len: "length (map unpremultiply (map premultiply ?data)) = width c * height c"
    using assms(6) by (simp add: silhouette_map)
  have punched:
    "punch (replicate (width c * height c) black) (map unpremultiply (map premultiply ?data)) = ?bin"
    unfolding len [symmetric] punch_replicate
    by (simp add: silhouette_map alpha_unpremultiply alpha_premultiply white_def)
  have out: "toDataURL (putImageData ?final ?bin) =
      \<lparr>rwidth = width c, rheight = height c, rpixels = ?bin\<rparr>"
    using assms(6)
    by (simp add: toDataURL_def putImageData_def fillRect_dims fresh_canvas_simps
        fill_black_fresh putAll_same_length premultiply_white premultiply_black
        unpremultiply_white unpremultiply_black)
  show ?thesis
    by (simp add: handleSave_def assms(1) Let_def ctx_c ctx_fresh data src dead fin punched out
        del: map_map)
qed

text \<open>On an overlay without pixels \<open>getImageData\<close> raises and nothing is saved.\<close>

lemma handleSave_empty:
  assumes "drawingCanvasRef st = Some c" and "has2d c" and "fresh2d pf"
    and "width c = 0 \<or> height c = 0"
  shows "snd (handleSave pf st) = Inl IndexSizeError"
  using assms
  by (auto simp add: handleSave_def Let_def getContext_def fresh_canvas_simps getImageData_def)

lemma sample_facts:
  "drawingCanvasRef sampleEditor = Some sampleCanvas" "has2d sampleCanvas"
  "fresh2d samplePlatform" "width sampleCanvas = 2" "height sampleCanvas = 1"
  "bitmap sampleCanvas = [(128, 0, 0, 128), (0, 0, 0, 0)]"
  by (simp_all add: sampleEditor_def editorOn_def sampleCanvas_def blankCanvas_def
      samplePlatform_def fresh_canvas_simps)

text \<open>
  C1. For an overlay canvas that has a 2D context and at least one pixel,
  \<open>handleSave\<close> produces a raster of the width and height of the overlay canvas
  in which a pixel is opaque white when the overlay's alpha there is positive, whatever
  its magnitude, and opaque black otherwise.
\<close>

theorem handleSave_binarises:
  assumes "drawingCanvasRef st = Some c" and "has2d c" and "fresh2d pf"
    and "0 < width c" and "0 < height c" and "length (bitmap c) = width c * height c"
  shows "\<exists>out. snd (handleSave pf st) = Inr (Some out)
    \<and> rwidth out = width c \<and> rheight out = height c
    \<and> length (rpixels out) = width c * height c
    \<and> (\<forall>i < width c * height c.
          rpixels out ! i = (if alpha (bitmap c ! i) > 0 then (255, 255, 255, 255) else (0, 0, 0, 255)))"
  using handleSave_available [OF assms] assms(6) by (simp add: white_def black_def)

theorem handleSave_binarises_witness:
  "drawingCanvasRef sampleEditor = Some sampleCanvas \<and> has2d sampleCanvas
   \<and> fresh2d samplePlatform \<and> 0 < width sampleCanvas \<and> 0 < height sampleCanvas
   \<and> length (bitmap sampleCanvas) = width sampleCanvas * height sampleCanvas
   \<and> (\<exists>out. snd (handleSave samplePlatform sampleEditor) = Inr (Some out)
        \<and> rwidth out = 2 \<and> rheight out = 1
        \<and> rpixels out ! 0 = (255, 255, 255, 255) \<and> rpixels out ! 1 = (0, 0, 0, 255))"
proof -
  have h: "0 < width sampleCanvas" "0 < height sampleCanvas"
    "length (bitmap sampleCanvas) = width sampleCanvas * height sampleCanvas"
    by (simp_all add: sample_facts)
  obtain out where out: "snd (handleSave samplePlatform sampleEditor) = Inr (Some out)"
    "rwidth out = width sampleCanvas" "rheight out = height sampleCanvas"
    "\<forall>i < width sampleCanvas * height sampleCanvas. rpixels out ! i =
       (if alpha (bitmap sampleCanvas ! i) > 0 then (255, 255, 255, 255) else (0, 0, 0, 255))"
    using handleSave_binarises [OF sample_facts(1-3) h] by blast
  have "rpixels out ! 0 = (255, 255, 255, 255)" "rpixels out ! 1 = (0, 0, 0, 255)"
    using out(4) by (simp_all add: sample_facts)
  with out(1-3) h show ?thesis
    by (simp add: sample_facts)
qed

subsection \<open>Evaluating the sample data\<close>

lemmas canvas_defs = createCanvas_def setWidth_def setHeight_def resetContext_def getContext_def
  fillRect_def clearRect_def drawImage_def sourceAt_def getImageData_def putImageData_def
  toDataURL_def stroke_def assignWidth_def assignHeight_def reflectDimension_def
  drawImageScaled_def imageAt_def

lemmas pixel_defs = shade_def mul255_def scaleAlpha_one scaleAlpha_half transparent_def
  white_def black_def

lemmas sample_defs = samplePlatform_def blankCanvas_def sampleCanvas_def editorOn_def
  sampleEditor_def dotCoverage_def

lemma replicate_two: "replicate 2 x = [x, x]"
  by (simp add: numeral_2_eq_2)

lemma upt_two: "[0..<2] = [0, 1]"
  by (simp add: numeral_2_eq_2)

lemma painted_pixel:
  "drawLine samplePlatform (editorOn (Some (blankCanvas 1 1))) 0 0 0 0 =
     editorOn (Some ((blankCanvas 1 1)\<lparr>bitmap := [(128, 0, 0, 128)], strokeStyle := Red,
       lineWidth := 40, lineCap := Round, lineJoin := Round, globalAlpha := 1 / 2\<rparr>))"
  by (simp add: drawLine_def canvas_defs pixel_defs sample_defs Let_def)

subsection \<open>The save does not touch the editor\<close>

text \<open>
  C9. \<open>handleSave\<close> leaves the editor, and with it the overlay canvas and its pixels,
  as they were: it reads the overlay with \<open>getImageData\<close> and writes to canvases of
  its own. This holds on every path, also when it returns early or raises.
\<close>

theorem handleSave_leaves_editor: "fst (handleSave pf st) = st"
  by (simp add: handleSave_def Let_def split: option.split sum.split)

subsection \<open>Moving the pointer without a stroke\<close>

text \<open>
  C10. \<open>draw\<close> with \<open>isDrawing\<close> false changes nothing of the editor, neither the
  overlay nor \<open>lastPos\<close>; this is the case after \<open>stopDrawing\<close>.
\<close>

theorem draw_without_stroke:
  "(\<not> isDrawing st \<longrightarrow> draw pf st e = st) \<and> draw pf (stopDrawing st) e = stopDrawing st"
  by (simp add: draw_def stopDrawing_def)

theorem draw_without_stroke_witness:
  "\<not> isDrawing sampleEditor
   \<and> draw samplePlatform sampleEditor \<lparr>clientX = 1, clientY = 0\<rparr> = sampleEditor
   \<and> lastPos (draw samplePlatform (stopDrawing (startDrawing samplePlatform sampleEditor
         \<lparr>clientX = 1, clientY = 0\<rparr>)) \<lparr>clientX = 0, clientY = 0\<rparr>) = None"
proof -
  have h: "\<not> isDrawing sampleEditor"
    by (simp add: sampleEditor_def editorOn_def)
  have "draw samplePlatform sampleEditor \<lparr>clientX = 1, clientY = 0\<rparr> = sampleEditor"
    using draw_without_stroke [of sampleEditor samplePlatform "\<lparr>clientX = 1, clientY = 0\<rparr>"] h
    by simp
  moreover have "lastPos (draw samplePlatform (stopDrawing (startDrawing samplePlatform
      sampleEditor \<lparr>clientX = 1, clientY = 0\<rparr>)) \<lparr>clientX = 0, clientY = 0\<rparr>) = None"
    using draw_without_stroke [of "startDrawing samplePlatform sampleEditor
      \<lparr>clientX = 1, clientY = 0\<rparr>" samplePlatform "\<lparr>clientX = 0, clientY = 0\<rparr>"]
    by (simp add: stopDrawing_def)
  ultimately show ?thesis using h by simp
qed

subsection \<open>No surface\<close>

text \<open>
  C5. When the drawing canvas is not there or gives no 2D context, \<open>drawLine\<close>,
  \<open>clearMask\<close>, \<open>invertMask\<close> and \<open>handleSave\<close> return without an exception
  and leave the editor as it was; \<open>handleSave\<close> does not reach \<open>onSave\<close>.
\<close>

theorem unavailable_surface_noop:
  assumes "drawingCanvasRef st = None \<or> (\<exists>c. drawingCanvasRef st = Some c \<and> \<not> has2d c)"
  shows "drawLine pf st x1 y1 x2 y2 = st \<and> clearMask st = st
    \<and> invertMask pf st = Inr st \<and> handleSave pf st = (st, Inr None)"
  using assms
  by (auto simp add: drawLine_def clearMask_def invertMask_def handleSave_def getContext_def
      Let_def split: option.split)

theorem unavailable_surface_noop_witness:
  "drawingCanvasRef (editorOn None) = None
   \<and> drawLine samplePlatform (editorOn None) 0 0 1 0 = editorOn None
   \<and> clearMask (editorOn None) = editorOn None
   \<and> invertMask samplePlatform (editorOn None) = Inr (editorOn None)
   \<and> handleSave samplePlatform (editorOn None) = (editorOn None, Inr None)"
proof -
  have h: "drawingCanvasRef (editorOn None) = None"
    by (simp add: editorOn_def)
  then have "drawingCanvasRef (editorOn None) = None
      \<or> (\<exists>c. drawingCanvasRef (editorOn None) = Some c \<and> \<not> has2d c)"
    by simp
  from unavailable_surface_noop [OF this, of samplePlatform 0 0 1 0] h
  show ?thesis by simp
qed

subsection \<open>Clearing\<close>

lemma clearMask_available:
  "drawingCanvasRef st = Some c \<Longrightarrow> has2d c \<Longrightarrow>
     clearMask st = st\<lparr>drawingCanvasRef := Some (clearRect c)\<rparr>"
  by (simp add: clearMask_def getContext_def)

lemma clearRect_simps:
  "width (clearRect c) = width c" "height (clearRect c) = height c"
  "has2d (clearRect c) = has2d c"
  "bitmap (clearRect c) = replicate (length (bitmap c)) transparent"
  by (simp_all add: clearRect_def map_replicate_const)

text \<open>
  C6. \<open>clearMask\<close> makes every pixel of an overlay that has a 2D context transparent
  and keeps its size, whatever the overlay held; when the overlay has at least one pixel,
  \<open>handleSave\<close> then gives a raster of that size that is opaque black everywhere.
\<close>

theorem clearMask_then_export:
  assumes "drawingCanvasRef st = Some c" and "has2d c"
  shows "\<exists>c'. drawingCanvasRef (clearMask st) = Some c'
    \<and> width c' = width c \<and> height c' = height c
    \<and> length (bitmap c') = length (bitmap c)
    \<and> (\<forall>p \<in> set (bitmap c'). alpha p = 0)
    \<and> (fresh2d pf \<and> 0 < width c \<and> 0 < height c
         \<and> length (bitmap c) = width c * height c \<longrightarrow>
        snd (handleSave pf (clearMask st)) =
          Inr (Some \<lparr>rwidth = width c, rheight = height c,
            rpixels = replicate (width c * height c) (0, 0, 0, 255)\<rparr>))"
proof -
  let ?c = "clearRect c"
  have st': "drawingCanvasRef (clearMask st) = Some ?c"
    using assms by (simp add: clearMask_available)
  have "snd (handleSave pf (clearMask st)) =
      Inr (Some \<lparr>rwidth = width c, rheight = height c,
        rpixels = replicate (width c * height c) (0, 0, 0, 255)\<rparr>)"
    if h: "fresh2d pf" "0 < width c" "0 < height c" "length (bitmap c) = width c * height c"
  proof -
    have "snd (handleSave pf (clearMask st)) =
        Inr (Some \<lparr>rwidth = width ?c, rheight = height ?c,
          rpixels = map (\<lambda>p. if alpha p > 0 then white else black) (bitmap ?c)\<rparr>)"
      using st' assms(2) h by (intro handleSave_available) (simp_all add: clearRect_simps)
    then show ?thesis
      using h(4) by (simp add: clearRect_simps transparent_def black_def)
  qed
  then show ?thesis
    using st' by (simp add: clearRect_simps transparent_def)
qed

theorem clearMask_then_export_witness:
  "drawingCanvasRef sampleEditor = Some sampleCanvas \<and> has2d sampleCanvas
   \<and> fresh2d samplePlatform \<and> 0 < width sampleCanvas \<and> 0 < height sampleCanvas
   \<and> length (bitmap sampleCanvas) = width sampleCanvas * height sampleCanvas
   \<and> map_option bitmap (drawingCanvasRef (clearMask sampleEditor)) =
       Some [(0, 0, 0, 0), (0, 0, 0, 0)]
   \<and> snd (handleSave samplePlatform (clearMask sampleEditor)) =
       Inr (Some \<lparr>rwidth = 2, rheight = 1, rpixels = [(0, 0, 0, 255), (0, 0, 0, 255)]\<rparr>)"
proof -
  have h: "0 < width sampleCanvas" "0 < height sampleCanvas"
    "length (bitmap sampleCanvas) = width sampleCanvas * height sampleCanvas"
    by (simp_all add: sample_facts)
  have "snd (handleSave samplePlatform (clearMask sampleEditor)) =
      Inr (Some \<lparr>rwidth = 2, rheight = 1, rpixels = [(0, 0, 0, 255), (0, 0, 0, 255)]\<rparr>)"
    using clearMask_then_export [OF sample_facts(1,2), of samplePlatform] h
    by (auto simp add: sample_facts replicate_two)
  moreover have "map_option bitmap (drawingCanvasRef (clearMask sampleEditor)) =
      Some [(0, 0, 0, 0), (0, 0, 0, 0)]"
    by (simp add: clearMask_available [OF sample_facts(1,2)] clearRect_simps sample_facts
        transparent_def)
  ultimately show ?thesis using h by (simp add: sample_facts)
qed

subsection \<open>An overlay without pixels\<close>

lemma floor_fifth: "\<lfloor>1 / 5 :: rat\<rfloor> = 0"
  by (rule floor_unique) simp_all

lemma narrow_overlay:
  "map_option (\<lambda>c. (width c, height c, has2d c, bitmap c)) (drawingCanvasRef narrowEditor)
     = Some (1, 0, True, [])"
  by (simp add: narrowEditor_def wideImageEditor_def wideImage_def resizeCanvases_def
      canvasSize_def canvas_defs sample_defs Let_def floor_fifth)

text \<open>
  On that overlay, one pixel wide and no pixel high, \<open>handleSave\<close> raises at
  \<open>getImageData\<close> and gives no raster.
\<close>

theorem handleSave_empty_overlay_counterexample:
  "map_option width (drawingCanvasRef narrowEditor) = Some 1
   \<and> map_option height (drawingCanvasRef narrowEditor) = Some 0
   \<and> snd (handleSave samplePlatform narrowEditor) = Inl IndexSizeError"
proof -
  obtain c where c: "drawingCanvasRef narrowEditor = Some c" "width c = 1" "height c = 0"
    "has2d c"
    using narrow_overlay by auto
  have f: "fresh2d samplePlatform" by (simp add: samplePlatform_def)
  have e: "width c = 0 \<or> height c = 0" using c(3) by simp
  have "snd (handleSave samplePlatform narrowEditor) = Inl IndexSizeError"
    by (rule handleSave_empty [OF c(1) c(4) f e])
  then show ?thesis using c by simp
qed

text \<open>
  \<open>clearMask\<close> leaves that overlay without pixels, and \<open>handleSave\<close> after it
  raises as well.
\<close>

theorem clearMask_empty_overlay_counterexample:
  "map_option width (drawingCanvasRef (clearMask narrowEditor)) = Some 1
   \<and> map_option height (drawingCanvasRef (clearMask narrowEditor)) = Some 0
   \<and> map_option bitmap (drawingCanvasRef (clearMask narrowEditor)) = Some []
   \<and> snd (handleSave samplePlatform (clearMask narrowEditor)) = Inl IndexSizeError"
proof -
  obtain c where c: "drawingCanvasRef narrowEditor = Some c" "width c = 1" "height c = 0"
    "has2d c" "bitmap c = []"
    using narrow_overlay by auto
  have cl: "drawingCanvasRef (clearMask narrowEditor) = Some (clearRect c)"
    using c(1,4) by (simp add: clearMask_available)
  have f: "fresh2d samplePlatform" by (simp add: samplePlatform_def)
  have h: "has2d (clearRect c)" using c(4) by (simp add: clearRect_simps)
  have e: "width (clearRect c) = 0 \<or> height (clearRect c) = 0"
    using c(3) by (simp add: clearRect_simps)
  have "snd (handleSave samplePlatform (clearMask narrowEditor)) = Inl IndexSizeError"
    by (rule handleSave_empty [OF cl h f e])
  then show ?thesis using cl c by (simp add: clearRect_simps)
qed

subsection \<open>Erasing where nothing is painted\<close>

lemma shade_zero: "shade (1 / 2) col 0 = transparent"
  by (cases col) (simp_all add: shade_def scaleAlpha_half mul255_def transparent_def)

lemma destination_out_transparent_source: "composite DestinationOut transparent d = d"
  by (cases d) (simp add: transparent_def mul255_def)

lemma destination_out_transparent_destination:
  "validPixel d \<Longrightarrow> alpha d = 0 \<Longrightarrow> composite DestinationOut s d = d"
  by (cases d; cases s) (simp add: mul255_def)

lemma strokeAll_erase_untouched:
  assumes "list_all validPixel ds"
    and "\<forall>i < length ds. i < length ks \<and> 0 < ks ! i \<longrightarrow> alpha (ds ! i) = 0"
  shows "strokeAll DestinationOut (1 / 2) col ks ds = ds"
  using assms
proof (induction DestinationOut "1 / 2 :: rat" col ks ds rule: strokeAll.induct)
  case (1 col k ks d ds)
  have tl: "\<forall>i < length ds. i < length ks \<and> 0 < ks ! i \<longrightarrow> alpha (ds ! i) = 0"
    using "1.prems"(2) by force
  have hd: "composite DestinationOut (shade (1 / 2) col k) d = d"
  proof (cases "k = 0")
    case True
    then show ?thesis by (simp add: shade_zero destination_out_transparent_source)
  next
    case False
    then have "alpha d = 0" using "1.prems"(2) by force
    then show ?thesis using "1.prems"(1) by (simp add: destination_out_transparent_destination)
  qed
  show ?case using "1.hyps" "1.prems"(1) tl hd by simp
next
  case (2 col d ds)
  then show ?case by (simp add: shade_zero destination_out_transparent_source)
next
  case (3 col ks)
  then show ?case by simp
qed

text \<open>\<open>handleSave\<close> reads the size, the pixels and the context of the overlay only.\<close>

lemma handleSave_reads:
  assumes "drawingCanvasRef st = Some c" and "drawingCanvasRef st' = Some c'"
    and "width c' = width c" and "height c' = height c" and "bitmap c' = bitmap c"
    and "has2d c' = has2d c"
  shows "snd (handleSave pf st') = snd (handleSave pf st)"
  using assms
  by (simp add: handleSave_def Let_def getContext_def getImageData_def
      split: option.split sum.split)

text \<open>
  C8. A segment drawn with the eraser, when every pixel that the brush covers has
  alpha 0, leaves the pixels of the overlay as they were, and \<open>handleSave\<close> gives
  afterwards what it gave before.
\<close>

theorem erase_unpainted_noop:
  assumes "drawingCanvasRef st = Some c" and "isErasing st"
    and "list_all validPixel (bitmap c)"
    and "\<forall>i < length (bitmap c).
           i < length (strokeCoverage pf (width c) (height c) (brushSize st) Round Round
                  [(x1, y1), (x2, y2)])
           \<and> 0 < strokeCoverage pf (width c) (height c) (brushSize st) Round Round
                  [(x1, y1), (x2, y2)] ! i
           \<longrightarrow> alpha (bitmap c ! i) = 0"
  shows "\<exists>c'. drawingCanvasRef (drawLine pf st x1 y1 x2 y2) = Some c'
     \<and> bitmap c' = bitmap c \<and> width c' = width c \<and> height c' = height c
     \<and> snd (handleSave pf (drawLine pf st x1 y1 x2 y2)) = snd (handleSave pf st)"
proof (cases "has2d c")
  case False
  then have "drawLine pf st x1 y1 x2 y2 = st"
    using assms(1) by (simp add: drawLine_def getContext_def)
  then show ?thesis using assms(1) by simp
next
  case True
  let ?ctx = "c\<lparr>strokeStyle := Red, lineWidth := brushSize st, lineCap := Round,
      lineJoin := Round, globalAlpha := 1 / 2, globalCompositeOperation := DestinationOut\<rparr>"
  let ?c' = "stroke pf ?ctx [(x1, y1), (x2, y2)]"
  have st': "drawLine pf st x1 y1 x2 y2 = st\<lparr>drawingCanvasRef := Some ?c'\<rparr>"
    using assms(1,2) True by (simp add: drawLine_def getContext_def Let_def)
  have bm: "bitmap ?c' = bitmap c"
    using strokeAll_erase_untouched [OF assms(3,4), of Red] by (simp add: stroke_def)
  have dims: "width ?c' = width c" "height ?c' = height c" "has2d ?c' = has2d c"
    by (simp_all add: stroke_def)
  have "snd (handleSave pf (st\<lparr>drawingCanvasRef := Some ?c'\<rparr>)) = snd (handleSave pf st)"
    by (rule handleSave_reads [OF assms(1) _ dims(1,2) bm dims(3)]) simp
  then show ?thesis using st' bm dims by simp
qed

theorem erase_unpainted_noop_witness:
  "drawingCanvasRef erasingEditor = Some sampleCanvas \<and> isErasing erasingEditor
   \<and> list_all validPixel (bitmap sampleCanvas)
   \<and> strokeCoverage samplePlatform 2 1 40 Round Round [(1, 0), (1, 0)] = [0, 255]
   \<and> map_option bitmap (drawingCanvasRef (drawLine samplePlatform erasingEditor 1 0 1 0)) =
       Some [(128, 0, 0, 128), (0, 0, 0, 0)]
   \<and> snd (handleSave samplePlatform (drawLine samplePlatform erasingEditor 1 0 1 0)) =
       snd (handleSave samplePlatform erasingEditor)"
proof -
  have h1: "drawingCanvasRef erasingEditor = Some sampleCanvas"
    and h2: "isErasing erasingEditor" and b: "brushSize erasingEditor = 40"
    by (simp_all add: erasingEditor_def sample_facts) (simp add: sampleEditor_def editorOn_def)
  have h3: "list_all validPixel (bitmap sampleCanvas)"
    by (simp add: sample_facts)
  have cov: "strokeCoverage samplePlatform 2 1 40 Round Round [(1, 0), (1, 0)] = [0, 255]"
    by (simp add: samplePlatform_def dotCoverage_def upt_two)
  have h4: "\<forall>i < length (bitmap sampleCanvas).
      i < length (strokeCoverage samplePlatform (width sampleCanvas) (height sampleCanvas)
            (brushSize erasingEditor) Round Round [(1, 0), (1, 0)])
      \<and> 0 < strokeCoverage samplePlatform (width sampleCanvas) (height sampleCanvas)
            (brushSize erasingEditor) Round Round [(1, 0), (1, 0)] ! i
      \<longrightarrow> alpha (bitmap sampleCanvas ! i) = 0"
    unfolding sample_facts(4,5) b cov by (simp add: sample_facts(6) All_less_Suc)
  from erase_unpainted_noop [OF h1 h2 h3 h4] h1 h2 h3 cov
  show ?thesis by (auto simp add: sample_facts)
qed

subsection \<open>Inverting\<close>

lemma withGlobalAlpha_one: "withGlobalAlpha 1 s = s"
  by (cases s) (simp add: scaleAlpha_one)

lemma compositeAll_replicate:
  "compositeAll op ga ss (replicate (length ss) d) =
     map (\<lambda>s. composite op (withGlobalAlpha ga s) d) ss"
  by (induction ss) simp_all

lemma sourceAt_same_size:
  assumes "length (bitmap src) = width src * height src" and "i < width src * height src"
  shows "sourceAt (width src) src i = bitmap src ! i"
proof -
  have w: "0 < width src" using assms(2) by (cases "width src") simp_all
  have "i < height src * width src" using assms(2) by (simp add: mult.commute)
  then have "i div width src < height src" by (rule less_mult_imp_div_less)
  moreover have "i mod width src < width src" using w by simp
  moreover have "i div width src * width src + i mod width src = i" by simp
  ultimately show ?thesis using assms w by (simp add: sourceAt_def)
qed

lemma map_sourceAt:
  assumes "length (bitmap src) = width src * height src"
  shows "map (sourceAt (width src) src) [0..<length (bitmap src)] = bitmap src"
  using assms by (intro nth_equalityI) (simp_all add: sourceAt_same_size)

lemma invertMask_available:
  assumes "drawingCanvasRef st = Some c" and "has2d c" and "fresh2d pf"
    and "0 < width c" and "0 < height c" and "length (bitmap c) = width c * height c"
  shows "\<exists>st' c'. invertMask pf st = Inr st' \<and> drawingCanvasRef st' = Some c'
    \<and> width c' = width c \<and> height c' = height c \<and> has2d c'
    \<and> bitmap c' = map invertedPixel (bitmap c)"
proof -
  let ?n = "length (bitmap c)"
  let ?fresh = "setHeight (height c) (setWidth (width c) (createCanvas pf))"
  let ?temp = "?fresh\<lparr>bitmap := bitmap c\<rparr>"
  let ?filled = "(fillRect ((clearRect c)\<lparr>globalCompositeOperation := SourceOver,
      globalAlpha := 1 / 2, fillStyle := Red\<rparr>))\<lparr>globalCompositeOperation := DestinationOut\<rparr>"
  let ?out = "?filled\<lparr>bitmap := map invertedPixel (bitmap c)\<rparr>"
  have copy: "compositeAll SourceOver 1 (bitmap c) (replicate (length (bitmap c)) transparent)
      = bitmap c"
    by (simp add: compositeAll_replicate withGlobalAlpha_one composite_over_transparent)
  have m: "map (sourceAt (width c) c) [0..<width c * height c] = bitmap c"
    using map_sourceAt [OF assms(6)] assms(6) by simp
  have temp: "drawImage ?fresh c = Inr ?temp"
    using assms(4-6) copy
    by (simp add: drawImage_def fresh_canvas_simps m)
  have filled: "bitmap ?filled = replicate ?n (128, 0, 0, 128)"
    by (simp add: fillRect_def clearRect_def shade_def scaleAlpha_half mul255_def
        transparent_def map_replicate_const)
  have "length (bitmap ?temp) = width ?temp * height ?temp"
    using assms(6) by (simp add: fresh_canvas_simps)
  from map_sourceAt [OF this]
  have src: "map (sourceAt (width c) ?temp) [0..<?n] = bitmap c"
    by (simp add: fresh_canvas_simps)
  have punched: "compositeAll DestinationOut (1 / 2) (bitmap c)
      (replicate (length (bitmap c)) (128, 0, 0, 128)) = map invertedPixel (bitmap c)"
    by (simp add: compositeAll_replicate invertedPixel_def)
  have out: "drawImage ?filled ?temp = Inr ?out"
    using assms(4,5) src punched
    by (simp add: drawImage_def fresh_canvas_simps filled) (simp add: fillRect_def clearRect_def)
  have res: "invertMask pf st = Inr (st\<lparr>drawingCanvasRef := Some ?out\<rparr>)"
    using assms(1-3) temp out
    by (simp add: invertMask_def getContext_def fresh_canvas_simps Let_def)
  have "width ?out = width c" "height ?out = height c" "has2d ?out = has2d c"
    by (simp_all add: fillRect_def clearRect_def)
  then show ?thesis using res assms(2) by simp
qed

text \<open>A pixel that had alpha 0 becomes the red of a single stroke, alpha 128.\<close>

lemma invertedPixel_unpainted:
  "validPixel s \<Longrightarrow> alpha s = 0 \<Longrightarrow> invertedPixel s = (128, 0, 0, 128)"
  by (cases s) (simp add: invertedPixel_def scaleAlpha_half mul255_def)

text \<open>No pixel becomes transparent: the alpha after \<open>invertMask\<close> is at least 64.\<close>

lemma invertedPixel_selected:
  assumes "validPixel s"
  shows "64 \<le> alpha (invertedPixel s)"
proof -
  obtain r g b a where s: "s = (r, g, b, a)" by (cases s)
  have "a \<le> 255" using assms s by simp
  then have "(a + 1) div 2 \<le> 128" by arith
  then have "127 \<le> 255 - (a + 1) div 2" by simp
  then have "128 * 127 \<le> 128 * (255 - (a + 1) div 2)" by simp
  then have "(128 * 127 + 127) div 255 \<le> (128 * (255 - (a + 1) div 2) + 127) div 255"
    by (intro div_le_mono) simp
  then show ?thesis by (simp add: s invertedPixel_def scaleAlpha_half mul255_def)
qed

text \<open>So after \<open>invertMask\<close> the export of any overlay is white everywhere.\<close>

lemma invertMask_then_export:
  assumes "drawingCanvasRef st = Some c" and "has2d c" and "fresh2d pf"
    and "0 < width c" and "0 < height c" and "wellFormed c"
  shows "\<exists>st'. invertMask pf st = Inr st'
    \<and> snd (handleSave pf st') =
        Inr (Some \<lparr>rwidth = width c, rheight = height c,
          rpixels = replicate (width c * height c) white\<rparr>)"
proof -
  have len: "length (bitmap c) = width c * height c"
    and valid: "list_all validPixel (bitmap c)"
    using assms(6) by (simp_all add: wellFormed_def)
  obtain st' c' where inv: "invertMask pf st = Inr st'" "drawingCanvasRef st' = Some c'"
    "width c' = width c" "height c' = height c" "has2d c'"
    "bitmap c' = map invertedPixel (bitmap c)"
    using invertMask_available [OF assms(1-5) len] by blast
  have "snd (handleSave pf st') =
      Inr (Some \<lparr>rwidth = width c', rheight = height c',
        rpixels = map (\<lambda>p. if alpha p > 0 then white else black) (bitmap c')\<rparr>)"
    using inv assms(3-5) len by (intro handleSave_available) simp_all
  moreover have "map (\<lambda>p. if alpha p > 0 then white else black) (bitmap c')
      = replicate (width c * height c) white"
  proof -
    have "\<And>s. s \<in> set (bitmap c) \<Longrightarrow> 0 < alpha (invertedPixel s)"
      using valid invertedPixel_selected by (fastforce simp add: list_all_iff)
    then have "map (\<lambda>p. if alpha p > 0 then white else black) (bitmap c')
        = map (\<lambda>s. white) (bitmap c)"
      by (simp add: inv(6))
    then show ?thesis by (simp add: map_replicate_const len)
  qed
  ultimately show ?thesis using inv by simp
qed

text \<open>
  C2. A stroke that covers the single pixel of an overlay gives it alpha 128. After
  \<open>invertMask\<close> that pixel has alpha 96, not 0: the copy of the overlay is drawn
  with \<open>destination-out\<close> at \<open>globalAlpha = 0.5\<close> and takes away at most half of
  the red fill. \<open>handleSave\<close> then gives a white pixel, not a black one.
\<close>

theorem invertMask_keeps_painted_pixel:
  "map_option bitmap (drawingCanvasRef paintedEditor) = Some [(128, 0, 0, 128)]
   \<and> (case invertMask samplePlatform paintedEditor of
         Inl e \<Rightarrow> False
       | Inr st \<Rightarrow>
           map_option bitmap (drawingCanvasRef st) = Some [(96, 0, 0, 96)]
           \<and> snd (handleSave samplePlatform st) =
               Inr (Some \<lparr>rwidth = 1, rheight = 1, rpixels = [(255, 255, 255, 255)]\<rparr>))"
  unfolding paintedEditor_def blankEditor_def painted_pixel
  by (simp add: invertMask_def handleSave_def canvas_defs pixel_defs sample_defs Let_def)

text \<open>
  C3. On a blank overlay of one pixel \<open>handleSave\<close> gives a black pixel. After
  \<open>invertMask\<close> twice the pixel has alpha 96 and \<open>handleSave\<close> gives a white one.
\<close>

theorem invertMask_twice_on_blank:
  "snd (handleSave samplePlatform blankEditor) =
     Inr (Some \<lparr>rwidth = 1, rheight = 1, rpixels = [(0, 0, 0, 255)]\<rparr>)
   \<and> (case invertMask samplePlatform blankEditor of
         Inl e \<Rightarrow> False
       | Inr st1 \<Rightarrow>
           (case invertMask samplePlatform st1 of
              Inl e \<Rightarrow> False
            | Inr st2 \<Rightarrow>
                map_option bitmap (drawingCanvasRef st1) = Some [(128, 0, 0, 128)]
                \<and> map_option bitmap (drawingCanvasRef st2) = Some [(96, 0, 0, 96)]
                \<and> snd (handleSave samplePlatform st2) =
                    Inr (Some \<lparr>rwidth = 1, rheight = 1, rpixels = [(255, 255, 255, 255)]\<rparr>)))"
  by (simp add: blankEditor_def invertMask_def handleSave_def canvas_defs pixel_defs
      sample_defs Let_def)

subsection \<open>Opening the editor on a saved mask\<close>

text \<open>
  C4. \<open>sampleMask\<close> is what \<open>handleSave\<close> gives for \<open>sampleEditor\<close>: a white
  pixel and a black one, both opaque. Opened on that mask, \<open>resizeCanvases\<close> paints
  both pixels of the overlay, since \<open>source-in\<close> keeps the red fill wherever the
  mask is opaque, and \<open>handleSave\<close> gives two white pixels.
\<close>

theorem reopened_mask_selects_everything:
  "snd (handleSave samplePlatform sampleEditor) = Inr (Some sampleMask)
   \<and> snd (resizeCanvases samplePlatform reopenedEditor) = None
   \<and> map_option bitmap (drawingCanvasRef (fst (resizeCanvases samplePlatform reopenedEditor))) =
       Some [(128, 0, 0, 128), (128, 0, 0, 128)]
   \<and> snd (handleSave samplePlatform (fst (resizeCanvases samplePlatform reopenedEditor))) =
       Inr (Some \<lparr>rwidth = 2, rheight = 1,
         rpixels = [(255, 255, 255, 255), (255, 255, 255, 255)]\<rparr>)"
  by (simp add: reopenedEditor_def sampleMask_def sampleImage_def resizeCanvases_def
      seedMask_def canvasSize_def handleSave_def canvas_defs pixel_defs sample_defs Let_def
      replicate_two upt_two)

subsection \<open>The overlay stays well formed\<close>

lemma mul255_mono: "x \<le> y \<Longrightarrow> mul255 x a \<le> mul255 y a"
  unfolding mul255_def by (intro div_le_mono add_le_mono mult_le_mono1) simp_all

lemma mul255_le_left: "a \<le> 255 \<Longrightarrow> mul255 x a \<le> x"
proof -
  assume "a \<le> 255"
  then have "x * a \<le> x * 255" by (rule mult_le_mono2)
  then have "x * a + 127 < x * 255 + 255" by linarith
  then have "x * a + 127 < (x + 1) * 255" by simp
  then have "(x * a + 127) div 255 < x + 1"
    by (rule less_mult_imp_div_less)
  then show ?thesis by (simp add: mul255_def)
qed

lemma mul255_le_right: "x \<le> 255 \<Longrightarrow> mul255 x a \<le> a"
  using mul255_le_left [of x a] by (simp add: mul255_def mult.commute)

lemma valid_transparent: "validPixel transparent"
  by (simp add: transparent_def)

lemma valid_shade_half: "validPixel (shade (1 / 2) col k)"
proof -
  have "(min 255 k + 1) div 2 \<le> 255" by arith
  then show ?thesis
    by (cases col) (simp_all add: shade_def scaleAlpha_half Let_def mul255_le_right mul255_def)
qed

lemma valid_source_over:
  assumes "validPixel s" and "validPixel d"
  shows "validPixel (composite SourceOver s d)"
proof -
  obtain sr sg sb sa where s: "s = (sr, sg, sb, sa)" by (cases s)
  obtain dr dg db da where d: "d = (dr, dg, db, da)" by (cases d)
  have "mul255 da (255 - sa) \<le> 255 - sa"
    using assms(2) d by (intro mul255_le_right) simp
  moreover have "sa \<le> 255" using assms(1) s by simp
  ultimately have "sa + mul255 da (255 - sa) \<le> 255" by simp
  moreover have "mul255 dr (255 - sa) \<le> mul255 da (255 - sa)"
    "mul255 dg (255 - sa) \<le> mul255 da (255 - sa)"
    "mul255 db (255 - sa) \<le> mul255 da (255 - sa)"
    using assms(2) d by (simp_all add: mul255_mono)
  ultimately show ?thesis using assms(1) s d by (simp add: add_le_mono)
qed

lemma valid_destination_out:
  assumes "validPixel d"
  shows "validPixel (composite DestinationOut s d)"
proof -
  obtain sr sg sb sa where s: "s = (sr, sg, sb, sa)" by (cases s)
  obtain dr dg db da where d: "d = (dr, dg, db, da)" by (cases d)
  have "mul255 da (255 - sa) \<le> da" by (intro mul255_le_left) simp
  then have "mul255 da (255 - sa) \<le> 255" using assms d by simp
  then show ?thesis using assms s d by (simp add: mul255_mono)
qed

lemma strokeAll_valid:
  assumes "list_all validPixel ds" and "op = SourceOver \<or> op = DestinationOut"
  shows "list_all validPixel (strokeAll op (1 / 2) col ks ds)
    \<and> length (strokeAll op (1 / 2) col ks ds) = length ds"
  using assms
proof (induction op "1 / 2 :: rat" col ks ds rule: strokeAll.induct)
  case (1 op col k ks d ds)
  then show ?case
    by (auto simp add: valid_source_over valid_destination_out valid_shade_half)
next
  case (2 op col d ds)
  then show ?case
    by (auto simp add: valid_source_over valid_destination_out valid_shade_half)
next
  case (3 op col ks)
  then show ?case by simp
qed

lemma valid_invertedPixel: "validPixel (invertedPixel s)"
  unfolding invertedPixel_def by (rule valid_destination_out) simp

text \<open>
  The strokes, \<open>clearMask\<close> and \<open>invertMask\<close> keep the overlay well formed: as
  many pixels as the size says, each a valid premultiplied pixel.
\<close>

lemma drawLine_wellFormed:
  assumes "drawingCanvasRef st = Some c" and "wellFormed c"
  shows "\<exists>c'. drawingCanvasRef (drawLine pf st x1 y1 x2 y2) = Some c' \<and> wellFormed c'"
proof (cases "has2d c")
  case False
  then show ?thesis using assms by (simp add: drawLine_def getContext_def)
next
  case True
  have "list_all validPixel (bitmap c)" using assms(2) by (simp add: wellFormed_def)
  from strokeAll_valid [OF this]
  show ?thesis
    using assms True
    by (simp add: drawLine_def getContext_def Let_def stroke_def wellFormed_def)
qed

lemma clearMask_wellFormed:
  assumes "drawingCanvasRef st = Some c" and "wellFormed c"
  shows "\<exists>c'. drawingCanvasRef (clearMask st) = Some c' \<and> wellFormed c'"
  using assms
  by (auto simp add: clearMask_def getContext_def clearRect_def wellFormed_def list_all_iff
      transparent_def)

lemma invertMask_wellFormed:
  assumes "drawingCanvasRef st = Some c" and "wellFormed c" and "invertMask pf st = Inr st'"
  shows "\<exists>c'. drawingCanvasRef st' = Some c' \<and> wellFormed c'"
proof (cases "has2d c \<and> fresh2d pf")
  case False
  then have "invertMask pf st = Inr st"
    using assms(1)
    by (auto simp add: invertMask_def getContext_def fresh_canvas_simps Let_def)
  then show ?thesis using assms by simp
next
  case True
  have "0 < width c \<and> 0 < height c"
  proof (rule ccontr)
    assume "\<not> (0 < width c \<and> 0 < height c)"
    then have "invertMask pf st = Inl InvalidStateError"
      using assms(1) True
      by (auto simp add: invertMask_def getContext_def fresh_canvas_simps Let_def drawImage_def)
    with assms(3) show False by simp
  qed
  moreover have len: "length (bitmap c) = width c * height c"
    using assms(2) by (simp add: wellFormed_def)
  ultimately obtain st'' c' where inv: "invertMask pf st = Inr st''"
    "drawingCanvasRef st'' = Some c'" "width c' = width c" "height c' = height c"
    "bitmap c' = map invertedPixel (bitmap c)"
    using invertMask_available [OF assms(1) _ _ _ _ len, of pf] True by blast
  have "wellFormed c'"
    using inv(3-5) len by (simp add: wellFormed_def list_all_iff valid_invertedPixel)
  with inv(1,2) assms(3) show ?thesis by simp
qed

subsection \<open>The size of the canvases\<close>

lemma abs_error_bounds:
  fixes r x u :: rat
  assumes "\<bar>r - x\<bar> \<le> x * u"
  shows "x * (1 - u) \<le> r" and "r \<le> x * (1 + u)"
  using assms by (simp_all add: abs_le_iff algebra_simps)

lemma floor_within_one:
  fixes y P :: rat and n p :: nat
  assumes y: "0 \<le> y" and P: "P = of_nat p"
    and up: "y * of_nat n < P + 1" and lo: "P - 1 < y * of_nat n"
  shows "nat \<lfloor>y\<rfloor> * n \<le> p" and "p \<le> (nat \<lfloor>y\<rfloor> + 1) * n"
proof -
  let ?h = "nat \<lfloor>y\<rfloor>"
  have h: "of_nat ?h \<le> y" "y < of_nat ?h + 1"
    using y by (simp_all add: of_nat_nat floor_less_iff) linarith+
  have "of_nat ?h * of_nat n \<le> y * of_nat n"
    using h(1) by (intro mult_right_mono) simp_all
  with up have "(of_nat (?h * n) :: rat) < of_nat (p + 1)"
    by (simp add: P)
  then have "?h * n < p + 1" by (simp only: of_nat_less_iff)
  then show "?h * n \<le> p" by simp
  have "y * of_nat n \<le> (of_nat ?h + 1) * of_nat n"
    using h(2) by (intro mult_right_mono) simp_all
  with lo have "(of_nat p :: rat) < of_nat ((?h + 1) * n + 1)"
    by (simp add: P algebra_simps)
  then have "p < (?h + 1) * n + 1" by (simp only: of_nat_less_iff)
  then show "p \<le> (?h + 1) * n" by simp
qed

text \<open>The quotient \<open>cw / r\<close> for \<open>r\<close> near \<open>x = iw / ih\<close>, rounded to \<open>y\<close>.\<close>

lemma quotient_within_one:
  fixes x r q y u P :: rat and cw ih iw :: nat
  assumes u: "0 \<le> u" "u < 1" and x: "x * of_nat ih = of_nat iw" "0 < x"
    and r: "x * (1 - u) \<le> r" "r \<le> x * (1 + u)"
    and q: "q * r = of_nat cw"
    and y: "q * (1 - u) \<le> y" "y \<le> q * (1 + u)"
    and P: "P = of_nat (cw * ih)" and small: "2 * (u * P) + u < 1"
  shows "0 \<le> y" and "y * of_nat iw < P + 1" and "P - 1 < y * of_nat iw"
proof -
  have rpos: "0 < r"
    using x(2) u(2) r(1) by (meson diff_gt_0_iff_gt less_le_trans mult_pos_pos)
  have "0 \<le> q * r" using q by simp
  then have qnn: "0 \<le> q"
    using rpos by (auto simp add: zero_le_mult_iff)
  then show ynn: "0 \<le> y"
    using y(1) u(2) by (meson diff_ge_0_iff_ge less_imp_le mult_nonneg_nonneg order_trans)
  have Pnn: "0 \<le> P" by (simp add: P)
  have "y * r \<le> q * (1 + u) * r"
    using y(2) rpos by (intro mult_right_mono) simp_all
  then have yr_up: "y * r \<le> of_nat cw * (1 + u)"
    by (simp add: q [symmetric] algebra_simps)
  have "y * (x * (1 - u)) \<le> y * r"
    using r(1) ynn by (intro mult_left_mono) simp_all
  with yr_up have "y * (x * (1 - u)) \<le> of_nat cw * (1 + u)" by linarith
  then have "y * (x * (1 - u)) * of_nat ih \<le> of_nat cw * (1 + u) * of_nat ih"
    by (intro mult_right_mono) simp_all
  then have up: "y * of_nat iw * (1 - u) \<le> P * (1 + u)"
    by (simp add: P x(1) [symmetric] algebra_simps)
  have "q * (1 - u) * r \<le> y * r"
    using y(1) rpos by (intro mult_right_mono) simp_all
  then have yr_lo: "of_nat cw * (1 - u) \<le> y * r"
    by (simp add: q [symmetric] algebra_simps)
  have "y * r \<le> y * (x * (1 + u))"
    using r(2) ynn by (intro mult_left_mono) simp_all
  with yr_lo have "of_nat cw * (1 - u) \<le> y * (x * (1 + u))" by linarith
  then have "of_nat cw * (1 - u) * of_nat ih \<le> y * (x * (1 + u)) * of_nat ih"
    by (intro mult_right_mono) simp_all
  then have lo: "P * (1 - u) \<le> y * of_nat iw * (1 + u)"
    by (simp add: P x(1) [symmetric] algebra_simps)
  show "y * of_nat iw < P + 1"
  proof (rule ccontr)
    assume "\<not> y * of_nat iw < P + 1"
    then have "(P + 1) * (1 - u) \<le> y * of_nat iw * (1 - u)"
      using u by (intro mult_right_mono) simp_all
    with up have "(P + 1) * (1 - u) \<le> P * (1 + u)" by linarith
    then show False using small by (simp add: algebra_simps)
  qed
  show "P - 1 < y * of_nat iw"
  proof (rule ccontr)
    assume "\<not> P - 1 < y * of_nat iw"
    then have "y * of_nat iw * (1 + u) \<le> (P - 1) * (1 + u)"
      using u by (intro mult_right_mono) simp_all
    with lo have "P * (1 - u) \<le> (P - 1) * (1 + u)" by linarith
    then show False using small u by (simp add: algebra_simps)
  qed
qed

text \<open>The product \<open>ch * r\<close> for \<open>r\<close> near \<open>x = iw / ih\<close>, rounded to \<open>y\<close>.\<close>

lemma product_within_one:
  fixes x r y u P :: rat and ch ih iw :: nat
  assumes u: "0 \<le> u" "u < 1" and x: "x * of_nat ih = of_nat iw" "0 < x"
    and r: "x * (1 - u) \<le> r" "r \<le> x * (1 + u)"
    and y: "of_nat ch * r * (1 - u) \<le> y" "y \<le> of_nat ch * r * (1 + u)"
    and P: "P = of_nat (ch * iw)" and small: "3 * (u * P) < 1"
  shows "0 \<le> y" and "y * of_nat ih < P + 1" and "P - 1 < y * of_nat ih"
proof -
  have rpos: "0 < r"
    using x(2) u(2) r(1) by (meson diff_gt_0_iff_gt less_le_trans mult_pos_pos)
  have Pnn: "0 \<le> P" by (simp add: P)
  have upos: "0 \<le> 1 - u" "0 \<le> 1 + u" using u by simp_all
  have "0 \<le> of_nat ch * r * (1 - u)"
    using rpos upos by simp
  with y(1) show ynn: "0 \<le> y" by linarith
  have "of_nat ch * r * (1 + u) \<le> of_nat ch * (x * (1 + u)) * (1 + u)"
    using r(2) upos by (intro mult_right_mono mult_left_mono) simp_all
  with y(2) have "y \<le> of_nat ch * (x * (1 + u)) * (1 + u)" by linarith
  then have "y * of_nat ih \<le> of_nat ch * (x * (1 + u)) * (1 + u) * of_nat ih"
    by (intro mult_right_mono) simp_all
  also have "\<dots> = P * ((1 + u) * (1 + u))"
    by (simp add: P x(1) [symmetric] algebra_simps)
  finally have up: "y * of_nat ih \<le> P + 2 * (u * P) + u * (u * P)"
    by (simp add: algebra_simps)
  have "u * (u * P) \<le> 1 * (u * P)"
    using u Pnn by (intro mult_right_mono) simp_all
  with up small show "y * of_nat ih < P + 1" by linarith
  have "of_nat ch * (x * (1 - u)) * (1 - u) \<le> of_nat ch * r * (1 - u)"
    using r(1) upos by (intro mult_right_mono mult_left_mono) simp_all
  with y(1) have "of_nat ch * (x * (1 - u)) * (1 - u) \<le> y" by linarith
  then have "of_nat ch * (x * (1 - u)) * (1 - u) * of_nat ih \<le> y * of_nat ih"
    by (intro mult_right_mono) simp_all
  moreover have "of_nat ch * (x * (1 - u)) * (1 - u) * of_nat ih = P * ((1 - u) * (1 - u))"
    by (simp add: P x(1) [symmetric] algebra_simps)
  ultimately have lo: "P - 2 * (u * P) + u * (u * P) \<le> y * of_nat ih"
    by (simp add: algebra_simps)
  have "0 \<le> u * (u * P)" using u Pnn by simp
  moreover have "0 \<le> u * P" using u Pnn by simp
  ultimately show "P - 1 < y * of_nat ih" using lo small by linarith
qed


lemma of_nat_below:
  fixes a :: nat
  assumes "a < 2 ^ 24"
  shows "(of_nat a :: rat) \<le> 2 ^ 24"
proof -
  have "(of_nat a :: rat) < of_nat (2 ^ 24)"
    using assms by (simp only: of_nat_less_iff)
  then show ?thesis by simp
qed

lemma of_nat_above:
  fixes a :: nat
  assumes "0 < a"
  shows "(1 :: rat) \<le> of_nat a"
  using assms by (simp add: Suc_le_eq)

lemma ratio_range:
  fixes a b :: nat
  assumes "0 < a" and "0 < b" and "a < 2 ^ 24" and "b < 2 ^ 24"
  shows "1 / 2 ^ 24 \<le> (of_nat a / of_nat b :: rat)"
    and "(of_nat a / of_nat b :: rat) \<le> 2 ^ 24"
proof -
  note a = of_nat_above [OF assms(1)] of_nat_below [OF assms(3)]
  note b = of_nat_above [OF assms(2)] of_nat_below [OF assms(4)]
  have bpos: "(0 :: rat) < of_nat b" using assms(2) by simp
  have "(1 :: rat) * of_nat b \<le> of_nat a * 2 ^ 24"
    using a(1) b(2) by (intro mult_mono) simp_all
  then show "1 / 2 ^ 24 \<le> (of_nat a / of_nat b :: rat)"
    using bpos by (simp add: field_simps)
  have "(of_nat a :: rat) * 1 \<le> 2 ^ 24 * of_nat b"
    using a(2) b(1) by (intro mult_mono) simp_all
  then show "(of_nat a / of_nat b :: rat) \<le> 2 ^ 24"
    using bpos by (simp add: field_simps)
qed

lemma product_below:
  fixes a b :: nat
  assumes "a < 2 ^ 24" and "b < 2 ^ 24"
  shows "(of_nat (a * b) :: rat) \<le> 2 ^ 48"
proof -
  have "(of_nat a :: rat) * of_nat b \<le> 2 ^ 24 * 2 ^ 24"
    using of_nat_below [OF assms(1)] of_nat_below [OF assms(2)]
    by (intro mult_mono) simp_all
  then show ?thesis by simp
qed

lemma rounded_ratio:
  fixes a b :: nat
  assumes rl: "roundsLikeDouble rnd"
    and "0 < a" and "0 < b" and "a < 2 ^ 24" and "b < 2 ^ 24"
  shows "(of_nat a / of_nat b) * (1 - 1 / 2 ^ 53) \<le> rnd (of_nat a / of_nat b)"
    and "rnd (of_nat a / of_nat b) \<le> (of_nat a / of_nat b) * (1 + 1 / 2 ^ 53)"
proof -
  let ?x = "of_nat a / of_nat b :: rat"
  have "1 / 2 ^ 64 \<le> ?x"
    by (rule order_trans [OF _ ratio_range(1) [OF assms(2-5)]]) simp
  moreover have "?x \<le> 2 ^ 64"
    by (rule order_trans [OF ratio_range(2) [OF assms(2-5)]]) simp
  ultimately have "\<bar>rnd ?x - ?x\<bar> \<le> ?x * (1 / 2 ^ 53)"
    using rl unfolding roundsLikeDouble_def by blast
  then show "?x * (1 - 1 / 2 ^ 53) \<le> rnd ?x" and "rnd ?x \<le> ?x * (1 + 1 / 2 ^ 53)"
    by (rule abs_error_bounds)+
qed


lemma rounded_in_range:
  assumes rl: "roundsLikeDouble rnd" and "1 / 2 ^ 64 \<le> q" and "q \<le> 2 ^ 64"
  shows "q * (1 - 1 / 2 ^ 53) \<le> rnd q" and "rnd q \<le> q * (1 + 1 / 2 ^ 53)"
proof -
  have "\<bar>rnd q - q\<bar> \<le> q * (1 / 2 ^ 53)"
    using assms unfolding roundsLikeDouble_def by blast
  then show "q * (1 - 1 / 2 ^ 53) \<le> rnd q" and "rnd q \<le> q * (1 + 1 / 2 ^ 53)"
    by (rule abs_error_bounds)+
qed

lemma unit_roundoff:
  fixes u :: rat
  assumes "u = 1 / 2 ^ 53"
  shows "0 \<le> u" and "u < 1" and "1 / 2 \<le> 1 - u" and "1 + u \<le> 2" and "u * 2 ^ 48 = 1 / 32"
    and "u \<le> 1 / 32"
  using assms by simp_all

lemma rounded_ratio_range:
  fixes a b :: nat
  assumes rl: "roundsLikeDouble rnd"
    and "0 < a" and "0 < b" and "a < 2 ^ 24" and "b < 2 ^ 24"
  shows "1 / 2 ^ 25 \<le> rnd (of_nat a / of_nat b)" and "rnd (of_nat a / of_nat b) \<le> 2 ^ 25"
proof -
  define u :: rat where "u = 1 / 2 ^ 53"
  note u = unit_roundoff [OF u_def]
  let ?x = "of_nat a / of_nat b :: rat"
  note x = ratio_range [OF assms(2-5)]
  note r = rounded_ratio [OF assms, folded u_def]
  have "(1 / 2 ^ 25 :: rat) = (1 / 2 ^ 24) * (1 / 2)" by simp
  also have "\<dots> \<le> ?x * (1 - u)"
    using x(1) u(3) by (intro mult_mono) simp_all
  also have "\<dots> \<le> rnd ?x" by (rule r(1))
  finally show "1 / 2 ^ 25 \<le> rnd ?x" .
  have "rnd ?x \<le> ?x * (1 + u)" by (rule r(2))
  also have "\<dots> \<le> 2 ^ 24 * 2"
    using x(2) u(4) u(1) by (intro mult_mono) simp_all
  also have "\<dots> = (2 ^ 25 :: rat)" by simp
  finally show "rnd ?x \<le> 2 ^ 25" .
qed

lemma rounded_height:
  fixes cw iw ih :: nat
  assumes rl: "roundsLikeDouble rnd"
    and pos: "0 < iw" "0 < ih" and bnd: "iw < 2 ^ 24" "ih < 2 ^ 24" and cw: "cw < 2 ^ 24"
  shows "nat \<lfloor>rnd (of_nat cw / rnd (of_nat iw / of_nat ih))\<rfloor> * iw \<le> cw * ih"
    and "cw * ih \<le> (nat \<lfloor>rnd (of_nat cw / rnd (of_nat iw / of_nat ih))\<rfloor> + 1) * iw"
proof -
  define u :: rat where "u = 1 / 2 ^ 53"
  note u = unit_roundoff [OF u_def]
  define x :: rat where "x = of_nat iw / of_nat ih"
  define r where "r = rnd x"
  define q where "q = of_nat cw / r"
  define y where "y = rnd q"
  define P :: rat where "P = of_nat (cw * ih)"
  have x: "x * of_nat ih = of_nat iw" "0 < x"
    using pos by (simp_all add: x_def)
  note r = rounded_ratio [OF rl pos bnd, folded u_def x_def r_def]
  note rr = rounded_ratio_range [OF rl pos bnd, folded x_def r_def]
  have rpos: "0 < r" using rr(1) by (rule less_le_trans [rotated]) simp
  have small: "2 * (u * P) + u < 1"
  proof -
    have "u * P \<le> u * 2 ^ 48"
      using product_below [OF cw bnd(2)] u(1) unfolding P_def by (intro mult_left_mono)
    then show ?thesis using u(5) u(6) by linarith
  qed
  have goal: "nat \<lfloor>y\<rfloor> * iw \<le> cw * ih \<and> cw * ih \<le> (nat \<lfloor>y\<rfloor> + 1) * iw"
  proof (cases "cw = 0")
    case True
    then have "y = 0"
      using rl by (simp add: y_def q_def roundsLikeDouble_def)
    then show ?thesis using True by simp
  next
    case False
    then have c1: "(1 :: rat) \<le> of_nat cw" by (simp add: Suc_le_eq)
    note c2 = of_nat_below [OF cw]
    have qr: "q * r = of_nat cw" using rpos by (simp add: q_def)
    have "1 / 2 ^ 25 \<le> q"
      unfolding q_def using c1 rr(2) rpos by (intro frac_le) simp_all
    then have q1: "1 / 2 ^ 64 \<le> q" by (rule order_trans [rotated]) simp
    have "q \<le> 2 ^ 24 / (1 / 2 ^ 25)"
      unfolding q_def using c2 rr(1) by (intro frac_le) simp_all
    then have q2: "q \<le> 2 ^ 64" by (rule order_trans) simp
    note y = rounded_in_range [OF rl q1 q2, folded u_def y_def]
    note w = quotient_within_one [OF u(1,2) x r qr y P_def small]
    show ?thesis
      using floor_within_one [OF w(1) P_def w(2,3)] by simp
  qed
  then show "nat \<lfloor>rnd (of_nat cw / rnd (of_nat iw / of_nat ih))\<rfloor> * iw \<le> cw * ih"
    and "cw * ih \<le> (nat \<lfloor>rnd (of_nat cw / rnd (of_nat iw / of_nat ih))\<rfloor> + 1) * iw"
    by (simp_all add: y_def q_def r_def x_def)
qed


lemma rounded_width:
  fixes ch iw ih :: nat
  assumes rl: "roundsLikeDouble rnd"
    and pos: "0 < iw" "0 < ih" and bnd: "iw < 2 ^ 24" "ih < 2 ^ 24" and ch: "ch < 2 ^ 24"
  shows "nat \<lfloor>rnd (of_nat ch * rnd (of_nat iw / of_nat ih))\<rfloor> * ih \<le> ch * iw"
    and "ch * iw \<le> (nat \<lfloor>rnd (of_nat ch * rnd (of_nat iw / of_nat ih))\<rfloor> + 1) * ih"
proof -
  define u :: rat where "u = 1 / 2 ^ 53"
  note u = unit_roundoff [OF u_def]
  define x :: rat where "x = of_nat iw / of_nat ih"
  define r where "r = rnd x"
  define q where "q = of_nat ch * r"
  define y where "y = rnd q"
  define P :: rat where "P = of_nat (ch * iw)"
  have x: "x * of_nat ih = of_nat iw" "0 < x"
    using pos by (simp_all add: x_def)
  note r = rounded_ratio [OF rl pos bnd, folded u_def x_def r_def]
  note rr = rounded_ratio_range [OF rl pos bnd, folded x_def r_def]
  have rpos: "0 < r" using rr(1) by (rule less_le_trans [rotated]) simp
  have small: "3 * (u * P) < 1"
  proof -
    have "u * P \<le> u * 2 ^ 48"
      using product_below [OF ch bnd(1)] u(1) unfolding P_def by (intro mult_left_mono)
    then show ?thesis using u(5) by linarith
  qed
  have goal: "nat \<lfloor>y\<rfloor> * ih \<le> ch * iw \<and> ch * iw \<le> (nat \<lfloor>y\<rfloor> + 1) * ih"
  proof (cases "ch = 0")
    case True
    then have "y = 0"
      using rl by (simp add: y_def q_def roundsLikeDouble_def)
    then show ?thesis using True by simp
  next
    case False
    then have c1: "(1 :: rat) \<le> of_nat ch" by (simp add: Suc_le_eq)
    note c2 = of_nat_below [OF ch]
    have "1 * (1 / 2 ^ 25) \<le> q"
      unfolding q_def using c1 rr(1) by (intro mult_mono) simp_all
    then have q1: "1 / 2 ^ 64 \<le> q" by (rule order_trans [rotated]) simp
    have "q \<le> 2 ^ 24 * 2 ^ 25"
      unfolding q_def using c2 rr(2) rpos by (intro mult_mono) simp_all
    then have q2: "q \<le> 2 ^ 64" by (rule order_trans) simp
    note y = rounded_in_range [OF rl q1 q2, folded u_def y_def, unfolded q_def]
    note w = product_within_one [OF u(1,2) x r y P_def small]
    show ?thesis
      using floor_within_one [OF w(1) P_def w(2,3)] by simp
  qed
  then show "nat \<lfloor>rnd (of_nat ch * rnd (of_nat iw / of_nat ih))\<rfloor> * ih \<le> ch * iw"
    and "ch * iw \<le> (nat \<lfloor>rnd (of_nat ch * rnd (of_nat iw / of_nat ih))\<rfloor> + 1) * ih"
    by (simp_all add: y_def q_def r_def x_def)
qed

lemma greater_ratio:
  fixes cw ch iw ih :: nat
  assumes rl: "roundsLikeDouble rnd" and pos: "0 < ih" "0 < ch"
    and gt: "rnd (of_nat cw / of_nat ch) < rnd (of_nat iw / of_nat ih)"
  shows "cw * ih < iw * ch"
proof (rule ccontr)
  assume "\<not> cw * ih < iw * ch"
  then have "iw * ch \<le> cw * ih" by simp
  then have "(of_nat (iw * ch) :: rat) \<le> of_nat (cw * ih)"
    by (simp only: of_nat_le_iff)
  then have "(of_nat iw / of_nat ih :: rat) \<le> of_nat cw / of_nat ch"
    using pos by (simp add: field_simps)
  then have "rnd (of_nat iw / of_nat ih) \<le> rnd (of_nat cw / of_nat ch)"
    using rl unfolding roundsLikeDouble_def by blast
  with gt show False by simp
qed

lemma not_greater_ratio:
  fixes cw ch iw ih :: nat
  assumes rl: "roundsLikeDouble rnd"
    and pos: "0 < iw" "0 < ih" and bnd: "iw < 2 ^ 24" "ih < 2 ^ 24"
    and c: "0 < ch" "cw < 2 ^ 24" "ch < 2 ^ 24"
    and le: "rnd (of_nat iw / of_nat ih) \<le> rnd (of_nat cw / of_nat ch)"
  shows "iw * ch \<le> cw * ih"
proof -
  define u :: rat where "u = 1 / 2 ^ 53"
  note u = unit_roundoff [OF u_def]
  define x :: rat where "x = of_nat iw / of_nat ih"
  define k :: rat where "k = of_nat cw / of_nat ch"
  define Q :: rat where "Q = of_nat (cw * ih)"
  note rr = rounded_ratio_range [OF rl pos bnd, folded x_def]
  have cwpos: "0 < cw"
  proof (rule ccontr)
    assume "\<not> 0 < cw"
    then have "rnd k = 0" using rl by (simp add: k_def roundsLikeDouble_def)
    with le rr(1) show False by (simp add: x_def k_def)
  qed
  note rx = rounded_ratio [OF rl pos bnd, folded u_def x_def]
  note rk = rounded_ratio [OF rl cwpos c(1,2,3), folded u_def k_def]
  have "x * (1 - u) \<le> k * (1 + u)"
    using rx(1) rk(2) le by (simp add: x_def k_def)
  then have "x * (1 - u) * (of_nat ih * of_nat ch) \<le> k * (1 + u) * (of_nat ih * of_nat ch)"
    by (intro mult_right_mono) simp_all
  moreover have "of_nat iw = x * of_nat ih" "of_nat cw = k * of_nat ch"
    using pos c(1) by (simp_all add: x_def k_def)
  ultimately have key: "of_nat (iw * ch) * (1 - u) \<le> Q * (1 + u)"
    by (simp add: Q_def algebra_simps)
  have small: "2 * (u * Q) + u < 1"
  proof -
    have "u * Q \<le> u * 2 ^ 48"
      using product_below [OF c(2) bnd(2)] u(1) unfolding Q_def by (intro mult_left_mono)
    then show ?thesis using u(5) u(6) by linarith
  qed
  show ?thesis
  proof (rule ccontr)
    assume "\<not> iw * ch \<le> cw * ih"
    then have "cw * ih + 1 \<le> iw * ch" by simp
    then have "(of_nat (cw * ih + 1) :: rat) \<le> of_nat (iw * ch)"
      by (simp only: of_nat_le_iff)
    then have "Q + 1 \<le> of_nat (iw * ch)" by (simp add: Q_def)
    then have "(Q + 1) * (1 - u) \<le> of_nat (iw * ch) * (1 - u)"
      using u by (intro mult_right_mono) simp_all
    with key have "(Q + 1) * (1 - u) \<le> Q * (1 + u)" by linarith
    then show False using small by (simp add: algebra_simps)
  qed
qed


lemma reflectDimension_floor:
  assumes "0 \<le> v" and "nat \<lfloor>v\<rfloor> < 2 ^ 24"
  shows "reflectDimension d (Num v) = nat \<lfloor>v\<rfloor>"
proof -
  have "nat \<lfloor>v\<rfloor> < 4294967296" "nat \<lfloor>v\<rfloor> \<le> 2147483647"
    using assms(2) by simp_all
  then show ?thesis by (simp add: reflectDimension_def)
qed

lemma reflectDimension_of_nat:
  assumes "n < 2 ^ 24"
  shows "reflectDimension d (Num (of_nat n)) = n"
  using reflectDimension_floor [of "of_nat n" d] assms by simp

lemma canvasSize_fits:
  fixes cw ch iw ih :: nat
  assumes rl: "roundsLikeDouble (fround pf)"
    and pos: "0 < iw" "0 < ih" and bnd: "iw < 2 ^ 24" "ih < 2 ^ 24"
    and c: "cw < 2 ^ 24" "ch < 2 ^ 24"
    and W: "W = reflectDimension 300 (fst (canvasSize pf cw ch iw ih))"
    and H: "H = reflectDimension 150 (snd (canvasSize pf cw ch iw ih))"
  shows "W \<le> cw \<and> H \<le> ch
    \<and> ((W = cw \<and> H * iw \<le> cw * ih \<and> cw * ih \<le> (H + 1) * iw)
       \<or> (H = ch \<and> W * ih \<le> ch * iw \<and> ch * iw \<le> (W + 1) * ih))"
proof -
  define r where "r = fround pf (of_nat iw / of_nat ih)"
  define k where "k = fround pf (of_nat cw / of_nat ch)"
  note rr = rounded_ratio_range [OF rl pos bnd, folded r_def]
  have rpos: "0 < r" using rr(1) by (rule less_le_trans [rotated]) simp
  have zero: "fround pf 0 = 0" using rl by (simp add: roundsLikeDouble_def)
  have mono: "\<And>a b. a \<le> b \<Longrightarrow> fround pf a \<le> fround pf b"
    using rl unfolding roundsLikeDouble_def by blast
  show ?thesis
  proof (cases "ch = 0")
    case True
    then have "canvasSize pf cw ch iw ih = (Num 0, Num 0)"
      using pos by (simp add: canvasSize_def Let_def zero)
    then have "W = 0" "H = 0"
      by (simp_all add: W H reflectDimension_def)
    then show ?thesis using True by simp
  next
    case chpos: False
    show ?thesis
    proof (cases "k < r")
      case True
      define y where "y = fround pf (of_nat cw / r)"
      have size: "canvasSize pf cw ch iw ih = (Num (of_nat cw), Num y)"
        using pos chpos True rpos by (simp add: canvasSize_def Let_def r_def k_def y_def)
      have ynn: "0 \<le> y"
        using mono [of 0 "of_nat cw / r"] rpos by (simp add: y_def zero)
      note h = rounded_height [OF rl pos bnd c(1), folded r_def y_def]
      have lt: "cw * ih < iw * ch"
        using greater_ratio [OF rl pos(2) _ True [unfolded k_def r_def]] chpos by simp
      have "nat \<lfloor>y\<rfloor> * iw \<le> cw * ih" by (rule h(1))
      also have "\<dots> < iw * ch" by (rule lt)
      also have "\<dots> = ch * iw" by (rule mult.commute)
      finally have hch: "nat \<lfloor>y\<rfloor> < ch" by simp
      then have "nat \<lfloor>y\<rfloor> < 2 ^ 24" using c(2) by simp
      then have "H = nat \<lfloor>y\<rfloor>"
        by (simp add: H size reflectDimension_floor [OF ynn])
      moreover have "W = cw"
        by (simp add: W size reflectDimension_of_nat [OF c(1)])
      ultimately show ?thesis using h hch by simp
    next
      case False
      define y where "y = fround pf (of_nat ch * r)"
      have size: "canvasSize pf cw ch iw ih = (Num y, Num (of_nat ch))"
        using pos chpos False by (simp add: canvasSize_def Let_def r_def k_def y_def)
      have ynn: "0 \<le> y"
        using mono [of 0 "of_nat ch * r"] rpos by (simp add: y_def zero)
      note w = rounded_width [OF rl pos bnd c(2), folded r_def y_def]
      have le: "iw * ch \<le> cw * ih"
        using not_greater_ratio [OF rl pos bnd _ c] False chpos by (simp add: r_def k_def)
      have "nat \<lfloor>y\<rfloor> * ih \<le> ch * iw" by (rule w(1))
      also have "\<dots> = iw * ch" by (rule mult.commute)
      also have "\<dots> \<le> cw * ih" by (rule le)
      finally have wcw: "nat \<lfloor>y\<rfloor> \<le> cw" using pos(2) by simp
      then have "nat \<lfloor>y\<rfloor> < 2 ^ 24" using c(1) by simp
      then have "W = nat \<lfloor>y\<rfloor>"
        by (simp add: W size reflectDimension_floor [OF ynn])
      moreover have "H = ch"
        by (simp add: H size reflectDimension_of_nat [OF c(2)])
      ultimately show ?thesis using w wcw by simp
    qed
  qed
qed


lemma assign_dims:
  "width (assignHeight h (assignWidth w c)) = reflectDimension 300 w"
  "height (assignHeight h (assignWidth w c)) = reflectDimension 150 h"
  by (simp_all add: assignHeight_def assignWidth_def setHeight_def setWidth_def resetContext_def)

lemma drawImageScaled_dims:
  "width (drawImageScaled pf c img dw dh) = width c"
  "height (drawImageScaled pf c img dw dh) = height c"
  by (simp_all add: drawImageScaled_def split: jsnum.split)

lemma drawImage_dims:
  "drawImage c s = Inr c' \<Longrightarrow> width c' = width c \<and> height c' = height c"
  by (auto simp add: drawImage_def split: if_splits)

lemma seedMask_dims:
  "width (fst (seedMask pf d m w h)) = width d"
  "height (fst (seedMask pf d m w h)) = height d"
  by (auto simp add: seedMask_def Let_def split: option.split sum.split dest: drawImage_dims)

lemma resizeCanvases_sizes:
  assumes "containerRef st = Some (cw, ch)" and "imageCanvasRef st = Some ic"
    and "drawingCanvasRef st = Some dc" and "imageUrl st = Some img"
    and "W = reflectDimension 300 (fst (canvasSize pf cw ch (rwidth img) (rheight img)))"
    and "H = reflectDimension 150 (snd (canvasSize pf cw ch (rwidth img) (rheight img)))"
  shows "\<exists>ic' dc'. imageCanvasRef (fst (resizeCanvases pf st)) = Some ic'
    \<and> drawingCanvasRef (fst (resizeCanvases pf st)) = Some dc'
    \<and> width ic' = W \<and> height ic' = H \<and> width dc' = W \<and> height dc' = H"
proof -
  obtain w h where size: "canvasSize pf cw ch (rwidth img) (rheight img) = (w, h)"
    by (cases "canvasSize pf cw ch (rwidth img) (rheight img)")
  have d: "seedMask pf d m w h = (c', e) \<Longrightarrow> width c' = width d \<and> height c' = height d"
    for d m c' e
    using seedMask_dims [of pf d m w h] by simp
  show ?thesis
    using assms
    by (auto simp add: resizeCanvases_def size Let_def getContext_def assign_dims
        drawImageScaled_dims split: option.split prod.split dest!: d)
qed


text \<open>
  C7. After \<open>resizeCanvases\<close> the background canvas and the drawing canvas have the
  same width and the same height. The size fits in the container and one side fills
  it; the other side is the one that the aspect ratio of the image gives, rounded down
  to a pixel (or one pixel less when the doubles round an exact quotient down). This
  is for an image with pixels, sides below \<open>2^24\<close>, and doubles that round as
  \<open>roundsLikeDouble\<close> says.
\<close>

theorem resizeCanvases_geometry:
  assumes "roundsLikeDouble (fround pf)"
    and "containerRef st = Some (cw, ch)" and "imageCanvasRef st = Some ic"
    and "drawingCanvasRef st = Some dc" and "imageUrl st = Some img"
    and "0 < rwidth img" and "0 < rheight img"
    and "rwidth img < 2 ^ 24" and "rheight img < 2 ^ 24" and "cw < 2 ^ 24" and "ch < 2 ^ 24"
  shows "\<exists>ic' dc'. imageCanvasRef (fst (resizeCanvases pf st)) = Some ic'
    \<and> drawingCanvasRef (fst (resizeCanvases pf st)) = Some dc'
    \<and> width ic' = width dc' \<and> height ic' = height dc'
    \<and> width dc' \<le> cw \<and> height dc' \<le> ch
    \<and> ((width dc' = cw \<and> height dc' * rwidth img \<le> cw * rheight img
          \<and> cw * rheight img \<le> (height dc' + 1) * rwidth img)
       \<or> (height dc' = ch \<and> width dc' * rheight img \<le> ch * rwidth img
          \<and> ch * rwidth img \<le> (width dc' + 1) * rheight img))"
proof -
  define W where "W = reflectDimension 300 (fst (canvasSize pf cw ch (rwidth img) (rheight img)))"
  define H where "H = reflectDimension 150 (snd (canvasSize pf cw ch (rwidth img) (rheight img)))"
  obtain ic' dc' where c: "imageCanvasRef (fst (resizeCanvases pf st)) = Some ic'"
    "drawingCanvasRef (fst (resizeCanvases pf st)) = Some dc'"
    "width ic' = W" "height ic' = H" "width dc' = W" "height dc' = H"
    using resizeCanvases_sizes [OF assms(2-5) W_def H_def] by blast
  note fits = canvasSize_fits [OF assms(1) assms(6-11) W_def H_def]
  show ?thesis
    using c fits by simp
qed

lemma exact_roundsLikeDouble: "roundsLikeDouble (\<lambda>x. x)"
  by (simp add: roundsLikeDouble_def)

theorem resizeCanvases_geometry_witness:
  "roundsLikeDouble (fround samplePlatform)
   \<and> containerRef reopenedEditor = Some (2, 1)
   \<and> imageCanvasRef reopenedEditor = Some (blankCanvas 2 1)
   \<and> drawingCanvasRef reopenedEditor = Some (blankCanvas 2 1)
   \<and> imageUrl reopenedEditor = Some sampleImage
   \<and> 0 < rwidth sampleImage \<and> 0 < rheight sampleImage
   \<and> rwidth sampleImage < 2 ^ 24 \<and> rheight sampleImage < 2 ^ 24
   \<and> (\<exists>ic' dc'. imageCanvasRef (fst (resizeCanvases samplePlatform reopenedEditor)) = Some ic'
        \<and> drawingCanvasRef (fst (resizeCanvases samplePlatform reopenedEditor)) = Some dc'
        \<and> width ic' = width dc' \<and> height ic' = height dc'
        \<and> width dc' \<le> 2 \<and> height dc' \<le> 1)"
proof -
  have h1: "roundsLikeDouble (fround samplePlatform)"
    by (simp add: samplePlatform_def exact_roundsLikeDouble)
  have h2: "containerRef reopenedEditor = Some (2, 1)"
    "imageCanvasRef reopenedEditor = Some (blankCanvas 2 1)"
    "drawingCanvasRef reopenedEditor = Some (blankCanvas 2 1)"
    "imageUrl reopenedEditor = Some sampleImage"
    by (simp_all add: reopenedEditor_def editorOn_def)
  have h3: "0 < rwidth sampleImage" "0 < rheight sampleImage"
    "rwidth sampleImage < 2 ^ 24" "rheight sampleImage < 2 ^ 24"
    "(2 :: nat) < 2 ^ 24" "(1 :: nat) < 2 ^ 24"
    by (simp_all add: sampleImage_def)
  from resizeCanvases_geometry [OF h1 h2 h3] h1 h2 h3
  show ?thesis by blast
qed

subsection \<open>Seeding the overlay from an opaque mask\<close>

lemma imageAt_same_size:
  assumes "length (rpixels img) = rwidth img * rheight img" and "i < rwidth img * rheight img"
  shows "imageAt (rwidth img) img i = premultiply (rpixels img ! i)"
proof -
  have w: "0 < rwidth img" using assms(2) by (cases "rwidth img") simp_all
  have "i < rheight img * rwidth img" using assms(2) by (simp add: mult.commute)
  then have "i div rwidth img < rheight img" by (rule less_mult_imp_div_less)
  moreover have "i mod rwidth img < rwidth img" using w by simp
  moreover have "i div rwidth img * rwidth img + i mod rwidth img = i" by simp
  ultimately show ?thesis using assms w by (simp add: imageAt_def)
qed

lemma map_imageAt:
  assumes "length (rpixels img) = rwidth img * rheight img"
  shows "map (imageAt (rwidth img) img) [0..<rwidth img * rheight img] =
    map premultiply (rpixels img)"
  using assms by (intro nth_equalityI) (simp_all add: imageAt_same_size)

lemma compositeAll_uniform:
  "compositeAll op ga (replicate n s) (replicate n d) =
     replicate n (composite op (withGlobalAlpha ga s) d)"
  by (induction n) simp_all

lemma source_in_opaque:
  "alpha d = 255 \<Longrightarrow> composite SourceIn (shade 1 Red 255) d = (255, 0, 0, 255)"
  by (cases d) (simp add: shade_def scaleAlpha_one mul255_def)

lemma half_red_over_transparent:
  "composite SourceOver (withGlobalAlpha (1 / 2) (255, 0, 0, 255)) transparent = (128, 0, 0, 128)"
  by (simp add: scaleAlpha_half transparent_def mul255_def)

text \<open>
  Seeding a blank overlay from a mask of its size that is opaque everywhere, as every
  mask of \<open>handleSave\<close> is, paints every pixel of the overlay, whatever the colours
  of the mask are.
\<close>

lemma seedMask_opaque:
  assumes "fresh2d pf" and "0 < rwidth m" and "0 < rheight m"
    and "rwidth m < 2 ^ 24" and "rheight m < 2 ^ 24"
    and "length (rpixels m) = rwidth m * rheight m"
    and "\<forall>p \<in> set (rpixels m). alpha p = 255"
    and "width d = rwidth m" and "height d = rheight m"
    and "bitmap d = replicate (rwidth m * rheight m) transparent"
  shows "snd (seedMask pf d m (Num (of_nat (rwidth m))) (Num (of_nat (rheight m)))) = None"
    and "bitmap (fst (seedMask pf d m (Num (of_nat (rwidth m))) (Num (of_nat (rheight m))))) =
      replicate (rwidth m * rheight m) (128, 0, 0, 128)"
proof -
  let ?w = "rwidth m" and ?h = "rheight m"
  let ?n = "?w * ?h"
  let ?temp0 = "assignHeight (Num (of_nat ?h)) (assignWidth (Num (of_nat ?w)) (createCanvas pf))"
  have t0: "width ?temp0 = ?w" "height ?temp0 = ?h" "has2d ?temp0"
    "bitmap ?temp0 = replicate ?n transparent" "globalAlpha ?temp0 = 1"
    "globalCompositeOperation ?temp0 = SourceOver"
    using assms(1)
    by (simp_all add: assignHeight_def assignWidth_def reflectDimension_of_nat [OF assms(4)]
        reflectDimension_of_nat [OF assms(5)] fresh_canvas_simps)
  let ?temp1 = "drawImageScaled pf ?temp0 m (Num (of_nat ?w)) (Num (of_nat ?h))"
  have "compositeAll SourceOver 1 (map premultiply (rpixels m))
      (replicate (length (map premultiply (rpixels m))) transparent) = map premultiply (rpixels m)"
    by (simp only: compositeAll_replicate withGlobalAlpha_one composite_over_transparent map_ident)
  then have t1: "bitmap ?temp1 = map premultiply (rpixels m)"
    "width ?temp1 = ?w" "height ?temp1 = ?h"
    using assms(2,3,6) by (simp_all add: drawImageScaled_def t0 map_imageAt)
  let ?temp2 = "fillRect (?temp1\<lparr>globalCompositeOperation := SourceIn, fillStyle := Red\<rparr>)"
  have ga1: "globalAlpha ?temp1 = 1"
    using assms(2,3) by (simp add: drawImageScaled_def t0)
  have "\<And>p. p \<in> set (rpixels m) \<Longrightarrow>
      composite SourceIn (shade 1 Red 255) (premultiply p) = (255, 0, 0, 255)"
    using assms(7) by (simp add: source_in_opaque alpha_premultiply)
  then have "map (composite SourceIn (shade 1 Red 255)) (map premultiply (rpixels m)) =
      map (\<lambda>p. (255, 0, 0, 255)) (rpixels m)"
    by simp
  then have t2: "bitmap ?temp2 = replicate ?n (255, 0, 0, 255)"
    "width ?temp2 = ?w" "height ?temp2 = ?h"
    using assms(6) by (simp_all add: fillRect_def t1 ga1 map_replicate_const)
  let ?d = "d\<lparr>globalCompositeOperation := SourceOver, globalAlpha := 1 / 2, fillStyle := Red\<rparr>"
  have "length (bitmap ?temp2) = width ?temp2 * height ?temp2"
    by (simp add: t2)
  from map_sourceAt [OF this]
  have src: "map (sourceAt ?w ?temp2) [0..<?n] = replicate ?n (255, 0, 0, 255)"
    by (simp add: t2)
  have "compositeAll SourceOver (1 / 2) (replicate ?n (255, 0, 0, 255))
      (replicate ?n transparent) = replicate ?n (128, 0, 0, 128)"
    by (simp only: compositeAll_uniform half_red_over_transparent)
  then have out: "drawImage ?d ?temp2 =
      Inr (?d\<lparr>bitmap := replicate ?n (128, 0, 0, 128)\<rparr>)"
    using assms(2,3,8,10) src by (simp add: drawImage_def t2)
  have res: "seedMask pf d m (Num (of_nat ?w)) (Num (of_nat ?h)) =
      (?d\<lparr>bitmap := replicate ?n (128, 0, 0, 128)\<rparr>, None)"
    using t0(3) out by (simp add: seedMask_def Let_def getContext_def)
  show "snd (seedMask pf d m (Num (of_nat ?w)) (Num (of_nat ?h))) = None"
    and "bitmap (fst (seedMask pf d m (Num (of_nat ?w)) (Num (of_nat ?h)))) =
      replicate ?n (128, 0, 0, 128)"
    by (simp_all add: res)
qed

text \<open>Every pixel of a mask that \<open>handleSave\<close> gives is opaque.\<close>

lemma handleSave_opaque:
  assumes "drawingCanvasRef st = Some c" and "has2d c" and "fresh2d pf"
    and "0 < width c" and "0 < height c" and "length (bitmap c) = width c * height c"
    and "snd (handleSave pf st) = Inr (Some out)"
  shows "\<forall>p \<in> set (rpixels out). alpha p = 255"
  using handleSave_available [OF assms(1-6)] assms(7)
  by (auto simp add: white_def black_def)

end
